theory Spec2Isabelle
  imports Main "HOL-Library.Word"
begin

section \<open>AceButton: the debouncing and classification state machine\<close>

text \<open>
  A shallow embedding of \<^verbatim>\<open>src/AceButton.cpp\<close>. Every \<^verbatim>\<open>checkXxx\<close> member function
  becomes a function from the button's state to its new state. The calls of
  \<^verbatim>\<open>ButtonConfig::dispatchEvent\<close> are recorded, in order, in the field \<open>dispatched\<close>.
  The clock value and the configuration are arguments of every call, as
  \<^verbatim>\<open>checkState\<close> reads the clock once and the configuration may change between calls.
\<close>

subsection \<open>Types and constants\<close>

text \<open>
  \<^verbatim>\<open>int64_t\<close>: the type of \<open>now\<close> and of every \<open>elapsedTime\<close>. Subtraction is the machine's
  two's complement subtraction; comparison is the signed one (\<open>\<le>s\<close>).
\<close>

type_synonym int64_t = "64 word"
type_synonym uint8_t = "8 word"

text \<open>The compile-time assertions of the source fix \<open>HIGH\<close> and \<open>LOW\<close>.\<close>

definition HIGH :: int where
  "HIGH = 1"

definition LOW :: int where
  "LOW = 0"

text \<open>
  Modelled from the spec: the header \<^verbatim>\<open>include/AceButton.h\<close> is missing. The spec calls
  \<open>kButtonStateUnknown\<close> a distinguished sentinel used only before the first confirmed
  sample; the source asserts that it differs from \<open>LOW\<close> and \<open>HIGH\<close>.
\<close>

definition kButtonStateUnknown :: int where
  "kButtonStateUnknown = 127"

text \<open>
  Modelled from the spec: the flag constants of the missing header. The spec describes
  \<open>mFlags\<close> as a set of independent boolean conditions, so a flag is a name and
  \<open>mFlags\<close> is the set of the names that are set.
\<close>

datatype flag =
    kFlagDefaultReleasedState
  | kFlagDebouncing
  | kFlagPressed
  | kFlagClicked
  | kFlagDoubleClicked
  | kFlagLongPressed
  | kFlagRepeatPressed
  | kFlagClickPostponed
  | kFlagHeartRunning

text \<open>Modelled from the spec: the enabled-feature set of the missing \<^verbatim>\<open>ButtonConfig\<close>.\<close>

datatype feature =
    kFeatureClick
  | kFeatureDoubleClick
  | kFeatureLongPress
  | kFeatureRepeatPress
  | kFeatureSuppressAfterClick
  | kFeatureSuppressAfterDoubleClick
  | kFeatureSuppressAfterLongPress
  | kFeatureSuppressAfterRepeatPress
  | kFeatureSuppressClickBeforeDoubleClick
  | kFeatureHeartBeat

text \<open>
  Modelled from the spec: the configuration of the missing \<^verbatim>\<open>ButtonConfig\<close>, the numeric
  delays and the feature set. Each delay is the value the source compares with an
  \<^verbatim>\<open>int64_t elapsedTime\<close>, after the conversion to that type.
\<close>

record ButtonConfig =
  mFeatureFlags :: "feature set"
  getDebounceDelay :: int64_t
  getClickDelay :: int64_t
  getDoubleClickDelay :: int64_t
  getLongPressDelay :: int64_t
  getRepeatPressDelay :: int64_t
  getRepeatPressInterval :: int64_t
  getHeartBeatInterval :: int64_t

definition isFeature :: "ButtonConfig \<Rightarrow> feature \<Rightarrow> bool" where
  "isFeature cfg f = (f \<in> mFeatureFlags cfg)"

text \<open>
  Modelled from the spec: the event codes of the missing header, numbered as the
  table \<open>sEventNames\<close> of the source lists them.
\<close>

definition kEventPressed :: uint8_t where
  "kEventPressed = 0"

definition kEventReleased :: uint8_t where
  "kEventReleased = 1"

definition kEventClicked :: uint8_t where
  "kEventClicked = 2"

definition kEventDoubleClicked :: uint8_t where
  "kEventDoubleClicked = 3"

definition kEventLongPressed :: uint8_t where
  "kEventLongPressed = 4"

definition kEventRepeatPressed :: uint8_t where
  "kEventRepeatPressed = 5"

definition kEventLongReleased :: uint8_t where
  "kEventLongReleased = 6"

definition kEventHeartBeat :: uint8_t where
  "kEventHeartBeat = 7"

subsection \<open>Event names\<close>

definition sEventUnknown :: string where
  "sEventUnknown = ''(unknown)''"

definition sEventNames :: "string list" where
  "sEventNames =
    [''Pressed'', ''Released'', ''Clicked'', ''DoubleClicked'',
     ''LongPressed'', ''RepeatPressed'', ''LongReleased'', ''HeartBeat'']"

text \<open>The table lookup is commented out in the source: the body returns \<open>sEventUnknown\<close>.\<close>

definition eventName :: "uint8_t \<Rightarrow> string" where
  "eventName event = sEventUnknown"

subsection \<open>The button\<close>

text \<open>
  Modelled from the spec: the fields of \<^verbatim>\<open>AceButton\<close>, declared in the missing header. The
  five timestamps are subtracted from the \<^verbatim>\<open>int64_t now\<close> into an \<^verbatim>\<open>int64_t elapsedTime\<close>
  and printed with \<^verbatim>\<open>%lld\<close>, so they are \<^verbatim>\<open>int64_t\<close>. \<open>mLastButtonState\<close> holds \<open>LOW\<close>,
  \<open>HIGH\<close> or the sentinel, and is stored as it is given. The field \<open>dispatched\<close> is not a
  field of the class: it lists the calls \<^verbatim>\<open>dispatchEvent(this, eventType, buttonState)\<close>
  made so far, oldest first, each as the event code and the level passed.
\<close>

record AceButton =
  mPin :: uint8_t
  mId :: uint8_t
  mFlags :: "flag set"
  mLastButtonState :: int
  mLastDebounceTime :: int64_t
  mLastClickTime :: int64_t
  mLastPressTime :: int64_t
  mLastRepeatPressTime :: int64_t
  mLastHeartBeatTime :: int64_t
  dispatched :: "(uint8_t \<times> int) list"

text \<open>
  Modelled from the spec: the inline accessors of the missing header, on the flag set as
  the spec describes it (each flag set and cleared on its own).
\<close>

definition isFlag :: "AceButton \<Rightarrow> flag \<Rightarrow> bool" where
  "isFlag s f = (f \<in> mFlags s)"

definition setFlag :: "flag \<Rightarrow> AceButton \<Rightarrow> AceButton" where
  "setFlag f s = s\<lparr>mFlags := insert f (mFlags s)\<rparr>"

definition clearFlag :: "flag \<Rightarrow> AceButton \<Rightarrow> AceButton" where
  "clearFlag f s = s\<lparr>mFlags := mFlags s - {f}\<rparr>"

definition getLastButtonState :: "AceButton \<Rightarrow> int" where
  "getLastButtonState s = mLastButtonState s"

text \<open>From here on, the member functions of \<^verbatim>\<open>AceButton.cpp\<close>, in the order of the file.\<close>

definition setDefaultReleasedState :: "int \<Rightarrow> AceButton \<Rightarrow> AceButton" where
  "setDefaultReleasedState state s =
    (if state = HIGH then setFlag kFlagDefaultReleasedState s
     else clearFlag kFlagDefaultReleasedState s)"

definition getDefaultReleasedState :: "AceButton \<Rightarrow> int" where
  "getDefaultReleasedState s = (if isFlag s kFlagDefaultReleasedState then HIGH else LOW)"

definition init :: "uint8_t \<Rightarrow> int \<Rightarrow> uint8_t \<Rightarrow> AceButton \<Rightarrow> AceButton" where
  "init pin defaultReleasedState ident s =
    setDefaultReleasedState defaultReleasedState
      (s\<lparr>mPin := pin, mId := ident, mFlags := {}, mLastButtonState := kButtonStateUnknown\<rparr>)"

definition handleEvent :: "uint8_t \<Rightarrow> AceButton \<Rightarrow> AceButton" where
  "handleEvent eventType s =
    s\<lparr>dispatched := dispatched s @ [(eventType, getLastButtonState s)]\<rparr>"

subsection \<open>The checks\<close>

definition checkHeartBeat :: "ButtonConfig \<Rightarrow> int64_t \<Rightarrow> AceButton \<Rightarrow> AceButton" where
  "checkHeartBeat cfg now s =
    (if \<not> isFeature cfg kFeatureHeartBeat then s
     else if \<not> isFlag s kFlagHeartRunning
       then (setFlag kFlagHeartRunning s)\<lparr>mLastHeartBeatTime := now\<rparr>
     else
       (let elapsedTime = now - mLastHeartBeatTime s in
        if getHeartBeatInterval cfg \<le>s elapsedTime
        then (handleEvent kEventHeartBeat s)\<lparr>mLastHeartBeatTime := now\<rparr>
        else s))"

definition checkDebounced :: "ButtonConfig \<Rightarrow> int64_t \<Rightarrow> int \<Rightarrow> AceButton \<Rightarrow> bool \<times> AceButton" where
  "checkDebounced cfg now buttonState s =
    (if isFlag s kFlagDebouncing then
       (let elapsedTime = now - mLastDebounceTime s;
            isDebouncingTimeOver = (getDebounceDelay cfg \<le>s elapsedTime)
        in if isDebouncingTimeOver then (True, clearFlag kFlagDebouncing s)
           else (False, s))
     else if buttonState = getLastButtonState s then (True, s)
     else (False, (setFlag kFlagDebouncing s)\<lparr>mLastDebounceTime := now\<rparr>))"

text \<open>The parameter of \<^verbatim>\<open>checkInitialized\<close> is a \<^verbatim>\<open>uint16_t\<close>: the caller's \<^verbatim>\<open>int\<close> is converted.\<close>

definition to_uint16_t :: "int \<Rightarrow> int" where
  "to_uint16_t x = x mod 65536"

definition checkInitialized :: "int \<Rightarrow> AceButton \<Rightarrow> bool \<times> AceButton" where
  "checkInitialized buttonState s =
    (if mLastButtonState s \<noteq> kButtonStateUnknown then (True, s)
     else (False, s\<lparr>mLastButtonState := buttonState\<rparr>))"

definition checkLongPress :: "ButtonConfig \<Rightarrow> int64_t \<Rightarrow> int \<Rightarrow> AceButton \<Rightarrow> AceButton" where
  "checkLongPress cfg now buttonState s =
    (if buttonState = getDefaultReleasedState s then s
     else if isFlag s kFlagPressed \<and> \<not> isFlag s kFlagLongPressed then
       (let elapsedTime = now - mLastPressTime s in
        if getLongPressDelay cfg \<le>s elapsedTime
        then handleEvent kEventLongPressed (setFlag kFlagLongPressed s)
        else s)
     else s)"

definition checkRepeatPress :: "ButtonConfig \<Rightarrow> int64_t \<Rightarrow> int \<Rightarrow> AceButton \<Rightarrow> AceButton" where
  "checkRepeatPress cfg now buttonState s =
    (if buttonState = getDefaultReleasedState s then s
     else if isFlag s kFlagPressed then
       (if isFlag s kFlagRepeatPressed then
          (let elapsedTime = now - mLastRepeatPressTime s in
           if getRepeatPressInterval cfg \<le>s elapsedTime
           then (handleEvent kEventRepeatPressed s)\<lparr>mLastRepeatPressTime := now\<rparr>
           else s)
        else
          (let elapsedTime = now - mLastPressTime s in
           if getRepeatPressDelay cfg \<le>s elapsedTime
           then (handleEvent kEventRepeatPressed (setFlag kFlagRepeatPressed s))
                  \<lparr>mLastRepeatPressTime := now\<rparr>
           else s))
     else s)"

definition checkPressed :: "int64_t \<Rightarrow> int \<Rightarrow> AceButton \<Rightarrow> AceButton" where
  "checkPressed now buttonState s =
    (if buttonState = getDefaultReleasedState s then s
     else handleEvent kEventPressed (setFlag kFlagPressed (s\<lparr>mLastPressTime := now\<rparr>)))"

definition checkDoubleClicked :: "ButtonConfig \<Rightarrow> int64_t \<Rightarrow> AceButton \<Rightarrow> AceButton" where
  "checkDoubleClicked cfg now s =
    (if \<not> isFlag s kFlagClicked then clearFlag kFlagDoubleClicked s
     else
       (let elapsedTime = now - mLastClickTime s in
        if getDoubleClickDelay cfg \<le>s elapsedTime then clearFlag kFlagDoubleClicked s
        else
          (let s1 = (if isFlag s kFlagClickPostponed then clearFlag kFlagClickPostponed s else s)
           in handleEvent kEventDoubleClicked (setFlag kFlagDoubleClicked s1))))"

definition checkClicked :: "ButtonConfig \<Rightarrow> int64_t \<Rightarrow> AceButton \<Rightarrow> AceButton" where
  "checkClicked cfg now s =
    (let elapsedTime = now - mLastPressTime s in
     if getClickDelay cfg \<le>s elapsedTime then clearFlag kFlagClicked s
     else
       (let s1 = (if isFeature cfg kFeatureDoubleClick then checkDoubleClicked cfg now s else s)
        in if isFlag s1 kFlagDoubleClicked then clearFlag kFlagClicked s1
           else
             (let s2 = setFlag kFlagClicked (s1\<lparr>mLastClickTime := now\<rparr>)
              in if isFeature cfg kFeatureSuppressClickBeforeDoubleClick
                 then setFlag kFlagClickPostponed s2
                 else handleEvent kEventClicked s2)))"

definition checkReleased :: "ButtonConfig \<Rightarrow> int64_t \<Rightarrow> int \<Rightarrow> AceButton \<Rightarrow> AceButton" where
  "checkReleased cfg now buttonState s =
    (if buttonState \<noteq> getDefaultReleasedState s then s
     else
       (let s1 = (if isFeature cfg kFeatureClick \<or> isFeature cfg kFeatureDoubleClick
                  then checkClicked cfg now s else s);
            wasLongPressed = isFlag s1 kFlagLongPressed;
            suppress =
              ((isFlag s1 kFlagLongPressed \<and> isFeature cfg kFeatureSuppressAfterLongPress) \<or>
               (isFlag s1 kFlagRepeatPressed \<and> isFeature cfg kFeatureSuppressAfterRepeatPress) \<or>
               (isFlag s1 kFlagClicked \<and> isFeature cfg kFeatureSuppressAfterClick) \<or>
               (isFlag s1 kFlagDoubleClicked \<and> isFeature cfg kFeatureSuppressAfterDoubleClick));
            s2 = clearFlag kFlagRepeatPressed (clearFlag kFlagLongPressed
                   (clearFlag kFlagDoubleClicked (clearFlag kFlagPressed s1)))
        in if suppress then (if wasLongPressed then handleEvent kEventLongReleased s2 else s2)
           else handleEvent kEventReleased s2))"

definition checkChanged :: "ButtonConfig \<Rightarrow> int64_t \<Rightarrow> int \<Rightarrow> AceButton \<Rightarrow> AceButton" where
  "checkChanged cfg now buttonState s =
    checkReleased cfg now buttonState
      (checkPressed now buttonState (s\<lparr>mLastButtonState := buttonState\<rparr>))"

definition checkOrphanedClick :: "ButtonConfig \<Rightarrow> int64_t \<Rightarrow> AceButton \<Rightarrow> AceButton" where
  "checkOrphanedClick cfg now s =
    (let orphanedClickDelay = getDoubleClickDelay cfg;
         elapsedTime = now - mLastClickTime s
     in if isFlag s kFlagClicked \<and> orphanedClickDelay \<le>s elapsedTime
        then clearFlag kFlagClicked s else s)"

definition checkPostponedClick :: "ButtonConfig \<Rightarrow> int64_t \<Rightarrow> AceButton \<Rightarrow> AceButton" where
  "checkPostponedClick cfg now s =
    (let postponedClickDelay = getDoubleClickDelay cfg;
         elapsedTime = now - mLastClickTime s
     in if isFlag s kFlagClickPostponed \<and> postponedClickDelay \<le>s elapsedTime
        then clearFlag kFlagClickPostponed (handleEvent kEventClicked s) else s)"

definition checkEvent :: "ButtonConfig \<Rightarrow> int64_t \<Rightarrow> int \<Rightarrow> AceButton \<Rightarrow> AceButton" where
  "checkEvent cfg now buttonState s =
    (let s1 = (if isFeature cfg kFeatureClick \<or> isFeature cfg kFeatureDoubleClick
               then checkOrphanedClick cfg now (checkPostponedClick cfg now s) else s);
         s2 = (if isFeature cfg kFeatureLongPress then checkLongPress cfg now buttonState s1 else s1);
         s3 = (if isFeature cfg kFeatureRepeatPress then checkRepeatPress cfg now buttonState s2 else s2)
     in if buttonState \<noteq> getLastButtonState s3 then checkChanged cfg now buttonState s3 else s3)"

definition checkState :: "ButtonConfig \<Rightarrow> int64_t \<Rightarrow> int \<Rightarrow> AceButton \<Rightarrow> AceButton" where
  "checkState cfg now buttonState s =
    (let s1 = checkHeartBeat cfg now s;
         (debounced, s2) = checkDebounced cfg now buttonState s1
     in if debounced then
          (let (initialized, s3) = checkInitialized (to_uint16_t buttonState) s2
           in if initialized then checkEvent cfg now buttonState s3 else s3)
        else s2)"

text \<open>The polling loop of the caller: one \<open>checkState\<close> per sample \<open>(now, buttonState)\<close>.\<close>

fun checkStates :: "ButtonConfig \<Rightarrow> (int64_t \<times> int) list \<Rightarrow> AceButton \<Rightarrow> AceButton" where
  "checkStates cfg [] s = s"
| "checkStates cfg ((now, buttonState) # samples) s =
     checkStates cfg samples (checkState cfg now buttonState s)"

subsection \<open>Auxiliary notions for the statements\<close>

text \<open>The events a run dispatched: what \<open>s'\<close> holds beyond the events of \<open>s\<close>.\<close>

definition emitted :: "AceButton \<Rightarrow> AceButton \<Rightarrow> (uint8_t \<times> int) list" where
  "emitted s s' = drop (length (dispatched s)) (dispatched s')"

text \<open>The condition under which \<open>checkHeartBeat\<close> dispatches.\<close>

definition heartBeatDue :: "ButtonConfig \<Rightarrow> int64_t \<Rightarrow> AceButton \<Rightarrow> bool" where
  "heartBeatDue cfg now s =
    (isFeature cfg kFeatureHeartBeat \<and> isFlag s kFlagHeartRunning \<and>
     getHeartBeatInterval cfg \<le>s now - mLastHeartBeatTime s)"

subsection \<open>Concrete configurations and states\<close>

definition cfgW :: ButtonConfig where
  "cfgW = \<lparr>mFeatureFlags = {kFeatureClick, kFeatureHeartBeat}, getDebounceDelay = 20,
     getClickDelay = 200, getDoubleClickDelay = 400, getLongPressDelay = 1000,
     getRepeatPressDelay = 1000, getRepeatPressInterval = 200, getHeartBeatInterval = 5000\<rparr>"

text \<open>A button wired with \<open>HIGH\<close> as its released level, at rest.\<close>

definition sIdle :: AceButton where
  "sIdle = \<lparr>mPin = 2, mId = 0, mFlags = {kFlagDefaultReleasedState}, mLastButtonState = 1,
     mLastDebounceTime = 0, mLastClickTime = 0, mLastPressTime = 0, mLastRepeatPressTime = 0,
     mLastHeartBeatTime = 0, dispatched = []\<rparr>"

text \<open>
  \<open>appends s s' K L\<close>: the state \<open>s'\<close> holds the events of \<open>s\<close> and then events whose
  codes are in \<open>K\<close>, each carrying the level \<open>L\<close>.
\<close>

definition appends :: "AceButton \<Rightarrow> AceButton \<Rightarrow> uint8_t set \<Rightarrow> int \<Rightarrow> bool" where
  "appends s s' K L =
    (\<exists>evs. dispatched s' = dispatched s @ evs \<and> list_all (\<lambda>(e, l). e \<in> K \<and> l = L) evs)"

text \<open>The first statement of \<open>checkReleased\<close>: the click evaluation, when a click feature is on.\<close>

definition clickEvaluated :: "ButtonConfig \<Rightarrow> int64_t \<Rightarrow> AceButton \<Rightarrow> AceButton" where
  "clickEvaluated cfg now s =
    (if isFeature cfg kFeatureClick \<or> isFeature cfg kFeatureDoubleClick
     then checkClicked cfg now s else s)"

text \<open>One of the four flags is set and the suppress-after feature that goes with it is enabled.\<close>

definition releasedSuppressed :: "ButtonConfig \<Rightarrow> AceButton \<Rightarrow> bool" where
  "releasedSuppressed cfg s =
    ((isFlag s kFlagLongPressed \<and> isFeature cfg kFeatureSuppressAfterLongPress) \<or>
     (isFlag s kFlagRepeatPressed \<and> isFeature cfg kFeatureSuppressAfterRepeatPress) \<or>
     (isFlag s kFlagClicked \<and> isFeature cfg kFeatureSuppressAfterClick) \<or>
     (isFlag s kFlagDoubleClicked \<and> isFeature cfg kFeatureSuppressAfterDoubleClick))"

text \<open>A confirmed sample: the debounce gate of \<open>checkState\<close> accepts it.\<close>

definition confirmed :: "ButtonConfig \<Rightarrow> int64_t \<Rightarrow> int \<Rightarrow> AceButton \<Rightarrow> bool" where
  "confirmed cfg now b s = fst (checkDebounced cfg now b (checkHeartBeat cfg now s))"

text \<open>The state of \<open>checkEvent\<close> when it reaches its comparison of the levels.\<close>

definition beforeChange :: "ButtonConfig \<Rightarrow> int64_t \<Rightarrow> int \<Rightarrow> AceButton \<Rightarrow> AceButton" where
  "beforeChange cfg now b s =
    (let s1 = (if isFeature cfg kFeatureClick \<or> isFeature cfg kFeatureDoubleClick
               then checkOrphanedClick cfg now (checkPostponedClick cfg now s) else s);
         s2 = (if isFeature cfg kFeatureLongPress then checkLongPress cfg now b s1 else s1)
     in (if isFeature cfg kFeatureRepeatPress then checkRepeatPress cfg now b s2 else s2))"

definition cfgPostpone :: ButtonConfig where
  "cfgPostpone = \<lparr>mFeatureFlags = {kFeatureClick, kFeatureDoubleClick,
       kFeatureSuppressClickBeforeDoubleClick}, getDebounceDelay = 20,
     getClickDelay = 200, getDoubleClickDelay = 400, getLongPressDelay = 1000,
     getRepeatPressDelay = 1000, getRepeatPressInterval = 200, getHeartBeatInterval = 5000\<rparr>"

text \<open>Pressed at 100, the raw level back at \<open>HIGH\<close> since 150: the release awaits its confirmation.\<close>

definition sHeld :: AceButton where
  "sHeld = \<lparr>mPin = 2, mId = 0, mFlags = {kFlagDefaultReleasedState, kFlagPressed, kFlagDebouncing},
     mLastButtonState = 0, mLastDebounceTime = 150, mLastClickTime = 0, mLastPressTime = 100,
     mLastRepeatPressTime = 0, mLastHeartBeatTime = 0, dispatched = []\<rparr>"

definition cfgLong :: ButtonConfig where
  "cfgLong = \<lparr>mFeatureFlags = {kFeatureLongPress, kFeatureSuppressAfterLongPress},
     getDebounceDelay = 20, getClickDelay = 200, getDoubleClickDelay = 400,
     getLongPressDelay = 1000, getRepeatPressDelay = 1000, getRepeatPressInterval = 200,
     getHeartBeatInterval = 5000\<rparr>"

text \<open>Inside \<open>checkChanged\<close>, after a hold that long-pressed: the level is the released one already.\<close>

definition sLongHeld :: AceButton where
  "sLongHeld = \<lparr>mPin = 2, mId = 0,
     mFlags = {kFlagDefaultReleasedState, kFlagPressed, kFlagLongPressed},
     mLastButtonState = 1, mLastDebounceTime = 1100, mLastClickTime = 0, mLastPressTime = 30,
     mLastRepeatPressTime = 0, mLastHeartBeatTime = 0, dispatched = []\<rparr>"

text \<open>At rest at \<open>HIGH\<close>, the raw level at \<open>LOW\<close> since 5000, the heartbeat running since 0.\<close>

definition sPending :: AceButton where
  "sPending = \<lparr>mPin = 2, mId = 0,
     mFlags = {kFlagDefaultReleasedState, kFlagDebouncing, kFlagHeartRunning},
     mLastButtonState = 1, mLastDebounceTime = 5000, mLastClickTime = 0, mLastPressTime = 0,
     mLastRepeatPressTime = 0, mLastHeartBeatTime = 0, dispatched = []\<rparr>"

text \<open>One of the two click features is enabled: the guard of the click housekeeping.\<close>

definition clickFeature :: "ButtonConfig \<Rightarrow> bool" where
  "clickFeature cfg = (isFeature cfg kFeatureClick \<or> isFeature cfg kFeatureDoubleClick)"

text \<open>After a single click at 180 whose Clicked event was postponed.\<close>

definition sClicked :: AceButton where
  "sClicked = \<lparr>mPin = 2, mId = 0,
     mFlags = {kFlagDefaultReleasedState, kFlagClicked, kFlagClickPostponed},
     mLastButtonState = 1, mLastDebounceTime = 150, mLastClickTime = 180, mLastPressTime = 100,
     mLastRepeatPressTime = 0, mLastHeartBeatTime = 0, dispatched = []\<rparr>"

text \<open>The stages of \<open>checkEvent\<close>, each with the guard the source puts around it.\<close>

definition clickCleanupStage :: "ButtonConfig \<Rightarrow> int64_t \<Rightarrow> AceButton \<Rightarrow> AceButton" where
  "clickCleanupStage cfg now s =
    (if isFeature cfg kFeatureClick \<or> isFeature cfg kFeatureDoubleClick
     then checkOrphanedClick cfg now (checkPostponedClick cfg now s) else s)"

definition longPressStage :: "ButtonConfig \<Rightarrow> int64_t \<Rightarrow> int \<Rightarrow> AceButton \<Rightarrow> AceButton" where
  "longPressStage cfg now b s =
    (if isFeature cfg kFeatureLongPress then checkLongPress cfg now b s else s)"

definition repeatPressStage :: "ButtonConfig \<Rightarrow> int64_t \<Rightarrow> int \<Rightarrow> AceButton \<Rightarrow> AceButton" where
  "repeatPressStage cfg now b s =
    (if isFeature cfg kFeatureRepeatPress then checkRepeatPress cfg now b s else s)"

definition changeStage :: "ButtonConfig \<Rightarrow> int64_t \<Rightarrow> int \<Rightarrow> AceButton \<Rightarrow> AceButton" where
  "changeStage cfg now b s =
    (if b \<noteq> getLastButtonState s then checkChanged cfg now b s else s)"

text \<open>
  The classifier as the specification orders it: heartbeat, debounce gate, initialization,
  long-press, repeat-press, click cleanup, change detection.
\<close>

definition checkState_spec_order :: "ButtonConfig \<Rightarrow> int64_t \<Rightarrow> int \<Rightarrow> AceButton \<Rightarrow> AceButton" where
  "checkState_spec_order cfg now buttonState s =
    (let s1 = checkHeartBeat cfg now s;
         (debounced, s2) = checkDebounced cfg now buttonState s1
     in if debounced then
          (let (initialized, s3) = checkInitialized (to_uint16_t buttonState) s2
           in if initialized
              then changeStage cfg now buttonState
                     (clickCleanupStage cfg now
                       (repeatPressStage cfg now buttonState
                         (longPressStage cfg now buttonState s3)))
              else s3)
        else s2)"

definition cfgOrder :: ButtonConfig where
  "cfgOrder = \<lparr>mFeatureFlags = {kFeatureClick, kFeatureDoubleClick,
       kFeatureSuppressClickBeforeDoubleClick, kFeatureLongPress}, getDebounceDelay = 20,
     getClickDelay = 200, getDoubleClickDelay = 400, getLongPressDelay = 1000,
     getRepeatPressDelay = 1000, getRepeatPressInterval = 200, getHeartBeatInterval = 5000\<rparr>"

text \<open>A click at 180 was postponed; the button is held again since 300.\<close>

definition sOrder :: AceButton where
  "sOrder = \<lparr>mPin = 2, mId = 0,
     mFlags = {kFlagDefaultReleasedState, kFlagPressed, kFlagClicked, kFlagClickPostponed},
     mLastButtonState = 0, mLastDebounceTime = 280, mLastClickTime = 180, mLastPressTime = 300,
     mLastRepeatPressTime = 0, mLastHeartBeatTime = 0, dispatched = []\<rparr>"

text \<open>The state in which \<open>checkState\<close> enters \<open>checkPressed\<close> and \<open>checkReleased\<close>, on a change.\<close>

definition changeEntry :: "ButtonConfig \<Rightarrow> int64_t \<Rightarrow> int \<Rightarrow> AceButton \<Rightarrow> AceButton" where
  "changeEntry cfg now b s =
    (beforeChange cfg now b (clearFlag kFlagDebouncing (checkHeartBeat cfg now s)))
      \<lparr>mLastButtonState := b\<rparr>"

text \<open>A zero-initialised \<^verbatim>\<open>AceButton\<close> object, before \<open>init\<close>.\<close>

definition sZero :: AceButton where
  "sZero = \<lparr>mPin = 0, mId = 0, mFlags = {}, mLastButtonState = 0,
     mLastDebounceTime = 0, mLastClickTime = 0, mLastPressTime = 0, mLastRepeatPressTime = 0,
     mLastHeartBeatTime = 0, dispatched = []\<rparr>"

definition cfgSuppress :: ButtonConfig where
  "cfgSuppress = \<lparr>mFeatureFlags = {kFeatureClick, kFeatureSuppressAfterClick},
     getDebounceDelay = 20, getClickDelay = 200, getDoubleClickDelay = 400,
     getLongPressDelay = 1000, getRepeatPressDelay = 1000, getRepeatPressInterval = 200,
     getHeartBeatInterval = 5000\<rparr>"

text \<open>Inside a debounce started at 65530, on a clock that has since rolled over at 16 bits.\<close>

definition sWrap :: AceButton where
  "sWrap = \<lparr>mPin = 2, mId = 0, mFlags = {kFlagDefaultReleasedState, kFlagDebouncing},
     mLastButtonState = 1, mLastDebounceTime = 65530, mLastClickTime = 0, mLastPressTime = 0,
     mLastRepeatPressTime = 0, mLastHeartBeatTime = 0, dispatched = []\<rparr>"

text \<open>The changes of the confirmed level over a run of samples: when, and to which level.\<close>

fun changes :: "ButtonConfig \<Rightarrow> (int64_t \<times> int) list \<Rightarrow> AceButton \<Rightarrow> (int64_t \<times> int) list" where
  "changes cfg [] s = []"
| "changes cfg ((now, buttonState) # samples) s =
     (if mLastButtonState (checkState cfg now buttonState s) \<noteq> mLastButtonState s
      then [(now, mLastButtonState (checkState cfg now buttonState s))] else []) @
     changes cfg samples (checkState cfg now buttonState s)"

text \<open>No click housekeeping is due at \<open>now\<close>: no click is pending, or its window is still open.\<close>

definition clickIdle :: "ButtonConfig \<Rightarrow> int64_t \<Rightarrow> AceButton \<Rightarrow> bool" where
  "clickIdle cfg now s =
    ((\<not> isFlag s kFlagClicked \<and> \<not> isFlag s kFlagClickPostponed) \<or>
     \<not> getDoubleClickDelay cfg \<le>s now - mLastClickTime s)"

text \<open>What the click logic reads of the state, and what a sample without a change keeps.\<close>

definition clickView :: "AceButton \<Rightarrow> bool \<times> bool \<times> int64_t" where
  "clickView s = (isFlag s kFlagClicked, isFlag s kFlagClickPostponed, mLastClickTime s)"

definition frameView :: "AceButton \<Rightarrow> (bool \<times> bool \<times> int64_t) \<times> int64_t \<times> bool" where
  "frameView s = (clickView s, mLastPressTime s, isFlag s kFlagDefaultReleasedState)"

text \<open>
  \<open>counted s s' c d\<close>: the state \<open>s'\<close> holds the events of \<open>s\<close> and then events among which
  \<open>c\<close> are Clicked and \<open>d\<close> are DoubleClicked.
\<close>

definition counted :: "AceButton \<Rightarrow> AceButton \<Rightarrow> nat \<Rightarrow> nat \<Rightarrow> bool" where
  "counted s s' c d =
    (\<exists>evs. dispatched s' = dispatched s @ evs \<and>
       count_list (map fst evs) kEventClicked = c \<and>
       count_list (map fst evs) kEventDoubleClicked = d)"

text \<open>Two clicks, 200 ms apart, and a last sample long after them.\<close>

definition twoClicks :: "(int64_t \<times> int) list" where
  "twoClicks = [(1000, LOW), (1025, LOW), (1100, HIGH), (1125, HIGH), (1200, LOW), (1225, LOW),
     (1300, HIGH), (1325, HIGH), (2000, HIGH)]"

section \<open>Properties\<close>

lemmas flag_defs = isFlag_def setFlag_def clearFlag_def getLastButtonState_def
  getDefaultReleasedState_def isFeature_def handleEvent_def

lemmas check_defs = checkState_def checkHeartBeat_def checkDebounced_def checkInitialized_def
  checkEvent_def checkOrphanedClick_def checkPostponedClick_def checkLongPress_def
  checkRepeatPress_def checkChanged_def checkPressed_def checkReleased_def checkClicked_def
  checkDoubleClicked_def to_uint16_t_def HIGH_def LOW_def kButtonStateUnknown_def Let_def

lemmas event_defs = kEventPressed_def kEventReleased_def kEventClicked_def
  kEventDoubleClicked_def kEventLongPressed_def kEventRepeatPressed_def kEventLongReleased_def
  kEventHeartBeat_def

lemma emitted_append: "dispatched s' = dispatched s @ evs \<Longrightarrow> emitted s s' = evs"
  by (simp add: emitted_def)

subsection \<open>Event names\<close>

text \<open>
  C9. \<open>eventName\<close> is claimed to map every event code to its display string and to
  return \<open>(unknown)\<close> only outside the enumerated range. The source returns
  \<open>(unknown)\<close> for every code: for \<open>kEventPressed\<close> the table holds \<open>Pressed\<close>, and
  \<open>eventName\<close> answers \<open>(unknown)\<close>.
\<close>

theorem eventName_ignores_table:
  "eventName kEventPressed = ''(unknown)'' \<and>
   sEventNames ! unat kEventPressed = ''Pressed'' \<and>
   unat kEventPressed < length sEventNames"
  by (simp add: eventName_def sEventUnknown_def sEventNames_def kEventPressed_def)

subsection \<open>The heartbeat check\<close>

lemma checkHeartBeat_dispatched:
  "dispatched (checkHeartBeat cfg now s) =
     dispatched s @ (if heartBeatDue cfg now s then [(kEventHeartBeat, mLastButtonState s)] else [])"
  by (simp add: checkHeartBeat_def heartBeatDue_def flag_defs Let_def)

lemma checkHeartBeat_keeps:
  "mLastButtonState (checkHeartBeat cfg now s) = mLastButtonState s"
  "mLastDebounceTime (checkHeartBeat cfg now s) = mLastDebounceTime s"
  "mLastClickTime (checkHeartBeat cfg now s) = mLastClickTime s"
  "mLastPressTime (checkHeartBeat cfg now s) = mLastPressTime s"
  "mLastRepeatPressTime (checkHeartBeat cfg now s) = mLastRepeatPressTime s"
  "f \<noteq> kFlagHeartRunning \<Longrightarrow> isFlag (checkHeartBeat cfg now s) f = isFlag s f"
  by (simp_all add: checkHeartBeat_def flag_defs Let_def)

subsection \<open>The debounce gate\<close>

text \<open>A sample that arrives inside the debounce window runs the heartbeat check only.\<close>

lemma checkState_rejected:
  assumes "isFlag s kFlagDebouncing" and "\<not> getDebounceDelay cfg \<le>s now - mLastDebounceTime s"
  shows "checkState cfg now b s = checkHeartBeat cfg now s"
proof -
  let ?h = "checkHeartBeat cfg now s"
  have "isFlag ?h kFlagDebouncing" using assms(1) by (simp add: checkHeartBeat_keeps)
  moreover have "mLastDebounceTime ?h = mLastDebounceTime s" by (simp add: checkHeartBeat_keeps)
  ultimately have "checkDebounced cfg now b ?h = (False, ?h)"
    using assms(2) by (simp add: checkDebounced_def Let_def)
  then show ?thesis by (simp add: checkState_def)
qed

lemma window_samples:
  assumes "isFlag s kFlagDebouncing"
    and "\<forall>(t, b) \<in> set samples. \<not> getDebounceDelay cfg \<le>s t - mLastDebounceTime s"
  shows "mLastButtonState (checkStates cfg samples s) = mLastButtonState s \<and>
         (\<forall>f. f \<noteq> kFlagHeartRunning \<longrightarrow> isFlag (checkStates cfg samples s) f = isFlag s f) \<and>
         (\<exists>n. dispatched (checkStates cfg samples s) =
              dispatched s @ replicate n (kEventHeartBeat, mLastButtonState s))"
  using assms
proof (induction samples arbitrary: s)
  case Nil
  then show ?case by simp
next
  case (Cons p samples)
  obtain t b where p: "p = (t, b)" by (cases p)
  let ?h = "checkHeartBeat cfg t s"
  from Cons.prems p have step: "checkState cfg t b s = ?h"
    by (simp add: checkState_rejected)
  have a: "isFlag ?h kFlagDebouncing" using Cons.prems(1) by (simp add: checkHeartBeat_keeps)
  have b: "\<forall>(t, b) \<in> set samples. \<not> getDebounceDelay cfg \<le>s t - mLastDebounceTime ?h"
    using Cons.prems(2) by (simp add: checkHeartBeat_keeps)
  note IH = Cons.IH [OF a b]
  from IH obtain n where n: "dispatched (checkStates cfg samples ?h) =
      dispatched ?h @ replicate n (kEventHeartBeat, mLastButtonState ?h)" by blast
  have "dispatched (checkStates cfg samples ?h) =
      dispatched s @ replicate (if heartBeatDue cfg t s then Suc n else n)
        (kEventHeartBeat, mLastButtonState s)"
    using n by (simp add: checkHeartBeat_dispatched checkHeartBeat_keeps)
  then show ?case using IH p step by (auto simp: checkHeartBeat_keeps)
qed

text \<open>
  C6. The debounce gate. Outside a debounce the gate accepts a sample at the last
  confirmed level and leaves the state alone; a sample at another level sets
  \<open>kFlagDebouncing\<close>, records \<open>mLastDebounceTime = now\<close> and is rejected. While
  \<open>kFlagDebouncing\<close> is set the level of the sample plays no part: the sample is rejected
  and the state kept until \<open>now - mLastDebounceTime \<ge> getDebounceDelay\<close>, and then the
  flag is cleared and the sample accepted. Consequently, after the sample that starts a
  debounce, samples that stay inside the window, at whatever levels, leave the confirmed
  level as it was and dispatch neither Pressed nor Released.
\<close>

theorem checkDebounced_gate:
  "(\<not> isFlag s kFlagDebouncing \<and> b = getLastButtonState s \<longrightarrow>
      checkDebounced cfg now b s = (True, s)) \<and>
   (\<not> isFlag s kFlagDebouncing \<and> b \<noteq> getLastButtonState s \<longrightarrow>
      checkDebounced cfg now b s =
        (False, s\<lparr>mFlags := insert kFlagDebouncing (mFlags s), mLastDebounceTime := now\<rparr>)) \<and>
   (isFlag s kFlagDebouncing \<longrightarrow>
      checkDebounced cfg now b s = checkDebounced cfg now b' s) \<and>
   (isFlag s kFlagDebouncing \<and> \<not> getDebounceDelay cfg \<le>s now - mLastDebounceTime s \<longrightarrow>
      checkDebounced cfg now b s = (False, s)) \<and>
   (isFlag s kFlagDebouncing \<and> getDebounceDelay cfg \<le>s now - mLastDebounceTime s \<longrightarrow>
      checkDebounced cfg now b s = (True, s\<lparr>mFlags := mFlags s - {kFlagDebouncing}\<rparr>)) \<and>
   (\<not> isFlag s kFlagDebouncing \<and> b \<noteq> getLastButtonState s \<and>
    (\<forall>(t, l) \<in> set samples. \<not> getDebounceDelay cfg \<le>s t - now) \<longrightarrow>
      mLastButtonState (checkStates cfg ((now, b) # samples) s) = mLastButtonState s \<and>
      kEventPressed \<notin> fst ` set (emitted s (checkStates cfg ((now, b) # samples) s)) \<and>
      kEventReleased \<notin> fst ` set (emitted s (checkStates cfg ((now, b) # samples) s)))"
proof -
  have gate: "(\<not> isFlag s kFlagDebouncing \<and> b = getLastButtonState s \<longrightarrow>
      checkDebounced cfg now b s = (True, s)) \<and>
   (\<not> isFlag s kFlagDebouncing \<and> b \<noteq> getLastButtonState s \<longrightarrow>
      checkDebounced cfg now b s =
        (False, s\<lparr>mFlags := insert kFlagDebouncing (mFlags s), mLastDebounceTime := now\<rparr>)) \<and>
   (isFlag s kFlagDebouncing \<longrightarrow>
      checkDebounced cfg now b s = checkDebounced cfg now b' s) \<and>
   (isFlag s kFlagDebouncing \<and> \<not> getDebounceDelay cfg \<le>s now - mLastDebounceTime s \<longrightarrow>
      checkDebounced cfg now b s = (False, s)) \<and>
   (isFlag s kFlagDebouncing \<and> getDebounceDelay cfg \<le>s now - mLastDebounceTime s \<longrightarrow>
      checkDebounced cfg now b s = (True, s\<lparr>mFlags := mFlags s - {kFlagDebouncing}\<rparr>))"
    by (simp add: checkDebounced_def flag_defs Let_def)
  have window: "mLastButtonState (checkStates cfg ((now, b) # samples) s) = mLastButtonState s \<and>
      kEventPressed \<notin> fst ` set (emitted s (checkStates cfg ((now, b) # samples) s)) \<and>
      kEventReleased \<notin> fst ` set (emitted s (checkStates cfg ((now, b) # samples) s))"
    if nd: "\<not> isFlag s kFlagDebouncing" and ch: "b \<noteq> getLastButtonState s"
      and win: "\<forall>(t, l) \<in> set samples. \<not> getDebounceDelay cfg \<le>s t - now"
  proof -
    let ?h = "checkHeartBeat cfg now s"
    let ?s1 = "(setFlag kFlagDebouncing ?h)\<lparr>mLastDebounceTime := now\<rparr>"
    have "\<not> isFlag ?h kFlagDebouncing" "b \<noteq> getLastButtonState ?h"
      using nd ch by (simp_all add: checkHeartBeat_keeps getLastButtonState_def)
    then have first: "checkState cfg now b s = ?s1"
      by (simp add: checkState_def checkDebounced_def)
    have deb: "isFlag ?s1 kFlagDebouncing" by (simp add: flag_defs)
    have t0: "mLastDebounceTime ?s1 = now" by (simp add: flag_defs)
    have lvl: "mLastButtonState ?s1 = mLastButtonState s"
      by (simp add: flag_defs checkHeartBeat_keeps)
    have d1: "dispatched ?s1 = dispatched s @
        (if heartBeatDue cfg now s then [(kEventHeartBeat, mLastButtonState s)] else [])"
      by (simp add: flag_defs checkHeartBeat_dispatched)
    from win have "\<forall>(t, l) \<in> set samples. \<not> getDebounceDelay cfg \<le>s t - mLastDebounceTime ?s1"
      by (simp only: t0)
    from window_samples [OF deb this] obtain n where
      l2: "mLastButtonState (checkStates cfg samples ?s1) = mLastButtonState ?s1" and
      d2: "dispatched (checkStates cfg samples ?s1) =
            dispatched ?s1 @ replicate n (kEventHeartBeat, mLastButtonState ?s1)"
      by blast
    have "dispatched (checkStates cfg ((now, b) # samples) s) = dispatched s @
        ((if heartBeatDue cfg now s then [(kEventHeartBeat, mLastButtonState s)] else []) @
         replicate n (kEventHeartBeat, mLastButtonState s))"
      using d2 d1 lvl first by simp
    then have "emitted s (checkStates cfg ((now, b) # samples) s) =
        (if heartBeatDue cfg now s then [(kEventHeartBeat, mLastButtonState s)] else []) @
         replicate n (kEventHeartBeat, mLastButtonState s)"
      by (rule emitted_append)
    then have "fst ` set (emitted s (checkStates cfg ((now, b) # samples) s)) \<subseteq> {kEventHeartBeat}"
      by auto
    moreover have "kEventPressed \<noteq> kEventHeartBeat" "kEventReleased \<noteq> kEventHeartBeat"
      by (simp_all add: kEventPressed_def kEventReleased_def kEventHeartBeat_def)
    ultimately show ?thesis using l2 lvl first by auto
  qed
  from gate window show ?thesis by blast
qed

theorem checkDebounced_gate_witness:
  "\<not> isFlag sIdle kFlagDebouncing \<and> LOW \<noteq> getLastButtonState sIdle \<and>
   list_all (\<lambda>(t, l). \<not> getDebounceDelay cfgW \<le>s t - 5) [(10, HIGH), (15, LOW), (24, HIGH)] \<and>
   checkDebounced cfgW 5 LOW sIdle =
     (False, sIdle\<lparr>mFlags := insert kFlagDebouncing (mFlags sIdle), mLastDebounceTime := 5\<rparr>) \<and>
   checkDebounced cfgW 24 HIGH (snd (checkDebounced cfgW 5 LOW sIdle)) =
     (False, snd (checkDebounced cfgW 5 LOW sIdle)) \<and>
   checkDebounced cfgW 25 LOW (snd (checkDebounced cfgW 5 LOW sIdle)) = (True, sIdle\<lparr>mLastDebounceTime := 5\<rparr>) \<and>
   mLastButtonState (checkStates cfgW [(5, LOW), (10, HIGH), (15, LOW), (24, HIGH)] sIdle) = HIGH \<and>
   kEventPressed \<notin> fst ` set (emitted sIdle (checkStates cfgW [(5, LOW), (10, HIGH), (15, LOW), (24, HIGH)] sIdle)) \<and>
   kEventReleased \<notin> fst ` set (emitted sIdle (checkStates cfgW [(5, LOW), (10, HIGH), (15, LOW), (24, HIGH)] sIdle))"
proof -
  have h1: "\<not> isFlag sIdle kFlagDebouncing" by (simp add: sIdle_def isFlag_def)
  have h2: "LOW \<noteq> getLastButtonState sIdle" by (simp add: sIdle_def getLastButtonState_def LOW_def)
  have h3: "\<forall>(t, l) \<in> set [(10, HIGH), (15, LOW), (24, HIGH)]. \<not> getDebounceDelay cfgW \<le>s t - 5"
    by (simp add: cfgW_def)
  have g1: "checkDebounced cfgW 5 LOW sIdle =
     (False, sIdle\<lparr>mFlags := insert kFlagDebouncing (mFlags sIdle), mLastDebounceTime := 5\<rparr>)"
    using checkDebounced_gate [of sIdle LOW cfgW 5 LOW "[]"] h1 h2 by blast
  let ?d = "sIdle\<lparr>mFlags := insert kFlagDebouncing (mFlags sIdle), mLastDebounceTime := 5\<rparr>"
  have d1: "isFlag ?d kFlagDebouncing" by (simp add: isFlag_def)
  have d2: "\<not> getDebounceDelay cfgW \<le>s 24 - mLastDebounceTime ?d" by (simp add: cfgW_def)
  have d3: "getDebounceDelay cfgW \<le>s 25 - mLastDebounceTime ?d" by (simp add: cfgW_def)
  have g2: "checkDebounced cfgW 24 HIGH ?d = (False, ?d)"
    using checkDebounced_gate [of ?d HIGH cfgW 24 HIGH "[]"] d1 d2 by blast
  have g3: "checkDebounced cfgW 25 LOW ?d = (True, ?d\<lparr>mFlags := mFlags ?d - {kFlagDebouncing}\<rparr>)"
    using checkDebounced_gate [of ?d LOW cfgW 25 LOW "[]"] d1 d3 by blast
  have g3': "?d\<lparr>mFlags := mFlags ?d - {kFlagDebouncing}\<rparr> = sIdle\<lparr>mLastDebounceTime := 5\<rparr>"
    by (simp add: sIdle_def)
  have w: "mLastButtonState (checkStates cfgW ((5, LOW) # [(10, HIGH), (15, LOW), (24, HIGH)]) sIdle) = mLastButtonState sIdle \<and>
      kEventPressed \<notin> fst ` set (emitted sIdle (checkStates cfgW ((5, LOW) # [(10, HIGH), (15, LOW), (24, HIGH)]) sIdle)) \<and>
      kEventReleased \<notin> fst ` set (emitted sIdle (checkStates cfgW ((5, LOW) # [(10, HIGH), (15, LOW), (24, HIGH)]) sIdle))"
    using checkDebounced_gate [of sIdle LOW cfgW 5 LOW "[(10, HIGH), (15, LOW), (24, HIGH)]"] h1 h2 h3
    by blast
  have lv: "mLastButtonState sIdle = HIGH" by (simp add: sIdle_def HIGH_def)
  have h3': "list_all (\<lambda>(t, l). \<not> getDebounceDelay cfgW \<le>s t - 5) [(10, HIGH), (15, LOW), (24, HIGH)]"
    by (simp add: cfgW_def)
  show ?thesis using h1 h2 h3' g1 g2 g3 g3' w lv by simp
qed

subsection \<open>Frame lemmas\<close>

lemma getLastButtonState_simp [simp]: "getLastButtonState s = mLastButtonState s"
  by (simp add: getLastButtonState_def)

lemma isFlag_simps [simp]:
  "isFlag (setFlag f s) g = (g = f \<or> isFlag s g)"
  "isFlag (clearFlag f s) g = (g \<noteq> f \<and> isFlag s g)"
  "isFlag (handleEvent e s) g = isFlag s g"
  "isFlag (s\<lparr>mLastButtonState := l\<rparr>) g = isFlag s g"
  "isFlag (s\<lparr>mLastDebounceTime := t\<rparr>) g = isFlag s g"
  "isFlag (s\<lparr>mLastClickTime := t\<rparr>) g = isFlag s g"
  "isFlag (s\<lparr>mLastPressTime := t\<rparr>) g = isFlag s g"
  "isFlag (s\<lparr>mLastRepeatPressTime := t\<rparr>) g = isFlag s g"
  "isFlag (s\<lparr>mLastHeartBeatTime := t\<rparr>) g = isFlag s g"
  by (auto simp: isFlag_def setFlag_def clearFlag_def handleEvent_def)

lemma setFlag_fields [simp]:
  "mLastButtonState (setFlag f s) = mLastButtonState s"
  "mLastDebounceTime (setFlag f s) = mLastDebounceTime s"
  "mLastClickTime (setFlag f s) = mLastClickTime s"
  "mLastPressTime (setFlag f s) = mLastPressTime s"
  "mLastRepeatPressTime (setFlag f s) = mLastRepeatPressTime s"
  "mLastHeartBeatTime (setFlag f s) = mLastHeartBeatTime s"
  "dispatched (setFlag f s) = dispatched s"
  by (simp_all add: setFlag_def)

lemma clearFlag_fields [simp]:
  "mLastButtonState (clearFlag f s) = mLastButtonState s"
  "mLastDebounceTime (clearFlag f s) = mLastDebounceTime s"
  "mLastClickTime (clearFlag f s) = mLastClickTime s"
  "mLastPressTime (clearFlag f s) = mLastPressTime s"
  "mLastRepeatPressTime (clearFlag f s) = mLastRepeatPressTime s"
  "mLastHeartBeatTime (clearFlag f s) = mLastHeartBeatTime s"
  "dispatched (clearFlag f s) = dispatched s"
  by (simp_all add: clearFlag_def)

lemma handleEvent_fields [simp]:
  "mLastButtonState (handleEvent e s) = mLastButtonState s"
  "mLastDebounceTime (handleEvent e s) = mLastDebounceTime s"
  "mLastClickTime (handleEvent e s) = mLastClickTime s"
  "mLastPressTime (handleEvent e s) = mLastPressTime s"
  "mLastRepeatPressTime (handleEvent e s) = mLastRepeatPressTime s"
  "mLastHeartBeatTime (handleEvent e s) = mLastHeartBeatTime s"
  "dispatched (handleEvent e s) = dispatched s @ [(e, mLastButtonState s)]"
  by (simp_all add: handleEvent_def getLastButtonState_def)

lemma getDefaultReleasedState_simps [simp]:
  "f \<noteq> kFlagDefaultReleasedState \<Longrightarrow> getDefaultReleasedState (setFlag f s) = getDefaultReleasedState s"
  "f \<noteq> kFlagDefaultReleasedState \<Longrightarrow> getDefaultReleasedState (clearFlag f s) = getDefaultReleasedState s"
  "getDefaultReleasedState (handleEvent e s) = getDefaultReleasedState s"
  "getDefaultReleasedState (s\<lparr>mLastButtonState := l\<rparr>) = getDefaultReleasedState s"
  "getDefaultReleasedState (s\<lparr>mLastDebounceTime := t\<rparr>) = getDefaultReleasedState s"
  "getDefaultReleasedState (s\<lparr>mLastClickTime := t\<rparr>) = getDefaultReleasedState s"
  "getDefaultReleasedState (s\<lparr>mLastPressTime := t\<rparr>) = getDefaultReleasedState s"
  "getDefaultReleasedState (s\<lparr>mLastRepeatPressTime := t\<rparr>) = getDefaultReleasedState s"
  "getDefaultReleasedState (s\<lparr>mLastHeartBeatTime := t\<rparr>) = getDefaultReleasedState s"
  by (auto simp: getDefaultReleasedState_def)

lemma appends_refl [simp]: "appends s s K L"
  by (simp add: appends_def)

lemma appends_trans:
  assumes "appends s s1 K L" and "appends s1 s2 K' L"
  shows "appends s s2 (K \<union> K') L"
proof -
  from assms obtain e1 e2 where
    1: "dispatched s1 = dispatched s @ e1" "list_all (\<lambda>(e, l). e \<in> K \<and> l = L) e1" and
    2: "dispatched s2 = dispatched s1 @ e2" "list_all (\<lambda>(e, l). e \<in> K' \<and> l = L) e2"
    unfolding appends_def by blast
  have "dispatched s2 = dispatched s @ (e1 @ e2)" using 1 2 by simp
  moreover have "list_all (\<lambda>(e, l). e \<in> K \<union> K' \<and> l = L) (e1 @ e2)"
    using 1(2) 2(2) by (auto simp: list_all_iff)
  ultimately show ?thesis unfolding appends_def by blast
qed

lemma appends_mono: "appends s s' K L \<Longrightarrow> K \<subseteq> K' \<Longrightarrow> appends s s' K' L"
  unfolding appends_def list_all_iff by fastforce

lemma appends_one:
  "dispatched s' = dispatched s @ (if c then [(e, L)] else []) \<Longrightarrow> appends s s' {e} L"
  by (simp add: appends_def)

lemma appends_emitted:
  "appends s s' K L \<Longrightarrow> list_all (\<lambda>(e, l). e \<in> K \<and> l = L) (emitted s s')"
  by (auto simp: appends_def emitted_def)

lemma appends_dispatched_eq:
  "dispatched s2 = dispatched s1 \<Longrightarrow> appends s s2 K L = appends s s1 K L"
  by (simp add: appends_def)

lemma checkHeartBeat_appends:
  "appends s (checkHeartBeat cfg now s) {kEventHeartBeat} (mLastButtonState s)"
  by (rule appends_one) (rule checkHeartBeat_dispatched)

lemma checkPostponedClick_appends:
  "appends s (checkPostponedClick cfg now s) {kEventClicked} (mLastButtonState s)"
  by (rule appends_one [where c = "isFlag s kFlagClickPostponed \<and> getDoubleClickDelay cfg \<le>s now - mLastClickTime s"])
     (simp add: checkPostponedClick_def Let_def)

lemma checkOrphanedClick_dispatched [simp]:
  "dispatched (checkOrphanedClick cfg now s) = dispatched s"
  by (simp add: checkOrphanedClick_def Let_def)

lemma checkLongPress_appends:
  "appends s (checkLongPress cfg now b s) {kEventLongPressed} (mLastButtonState s)"
  by (rule appends_one [where c = "b \<noteq> getDefaultReleasedState s \<and> isFlag s kFlagPressed \<and>
        \<not> isFlag s kFlagLongPressed \<and> getLongPressDelay cfg \<le>s now - mLastPressTime s"])
     (simp add: checkLongPress_def Let_def)

lemma checkRepeatPress_appends:
  "appends s (checkRepeatPress cfg now b s) {kEventRepeatPressed} (mLastButtonState s)"
  by (rule appends_one [where c = "b \<noteq> getDefaultReleasedState s \<and> isFlag s kFlagPressed \<and>
        (if isFlag s kFlagRepeatPressed then getRepeatPressInterval cfg \<le>s now - mLastRepeatPressTime s
         else getRepeatPressDelay cfg \<le>s now - mLastPressTime s)"])
     (simp add: checkRepeatPress_def Let_def)

lemma checkPressed_appends:
  "appends s (checkPressed now b s) {kEventPressed} (mLastButtonState s)"
  by (rule appends_one [where c = "b \<noteq> getDefaultReleasedState s"])
     (simp add: checkPressed_def)

lemma checkDoubleClicked_appends:
  "appends s (checkDoubleClicked cfg now s) {kEventDoubleClicked} (mLastButtonState s)"
  by (rule appends_one [where c = "isFlag s kFlagClicked \<and> \<not> getDoubleClickDelay cfg \<le>s now - mLastClickTime s"])
     (simp add: checkDoubleClicked_def Let_def)

lemma stage_level [simp]:
  "mLastButtonState (checkHeartBeat cfg now s) = mLastButtonState s"
  "mLastButtonState (checkPostponedClick cfg now s) = mLastButtonState s"
  "mLastButtonState (checkOrphanedClick cfg now s) = mLastButtonState s"
  "mLastButtonState (checkLongPress cfg now b s) = mLastButtonState s"
  "mLastButtonState (checkRepeatPress cfg now b s) = mLastButtonState s"
  "mLastButtonState (checkPressed now b s) = mLastButtonState s"
  "mLastButtonState (checkDoubleClicked cfg now s) = mLastButtonState s"
  by (simp_all add: checkHeartBeat_def checkPostponedClick_def checkOrphanedClick_def checkLongPress_def
      checkRepeatPress_def checkPressed_def checkDoubleClicked_def Let_def)

lemma checkClicked_level [simp]:
  "mLastButtonState (checkClicked cfg now s) = mLastButtonState s"
  by (simp add: checkClicked_def Let_def)

lemma checkClicked_appends:
  "appends s (checkClicked cfg now s) {kEventClicked, kEventDoubleClicked} (mLastButtonState s)"
proof (cases "getClickDelay cfg \<le>s now - mLastPressTime s")
  case True
  then have "dispatched (checkClicked cfg now s) = dispatched s"
    by (simp add: checkClicked_def Let_def)
  then show ?thesis by (simp add: appends_def)
next
  case False
  let ?s1 = "if isFeature cfg kFeatureDoubleClick then checkDoubleClicked cfg now s else s"
  have a: "appends s ?s1 {kEventDoubleClicked} (mLastButtonState s)"
    by (simp add: checkDoubleClicked_appends)
  have b: "appends ?s1 (checkClicked cfg now s) {kEventClicked} (mLastButtonState s)"
    using False
    by (intro appends_one [where c = "\<not> isFlag ?s1 kFlagDoubleClicked \<and>
          \<not> isFeature cfg kFeatureSuppressClickBeforeDoubleClick"])
       (simp add: checkClicked_def Let_def)
  from appends_trans [OF a b] show ?thesis by (simp add: insert_commute)
qed

subsection \<open>Release\<close>

lemma stage_flags:
  "f \<noteq> kFlagHeartRunning \<Longrightarrow> isFlag (checkHeartBeat cfg now s) f = isFlag s f"
  "f \<noteq> kFlagClickPostponed \<Longrightarrow> isFlag (checkPostponedClick cfg now s) f = isFlag s f"
  "f \<noteq> kFlagClicked \<Longrightarrow> isFlag (checkOrphanedClick cfg now s) f = isFlag s f"
  "f \<noteq> kFlagLongPressed \<Longrightarrow> isFlag (checkLongPress cfg now b s) f = isFlag s f"
  "f \<noteq> kFlagRepeatPressed \<Longrightarrow> isFlag (checkRepeatPress cfg now b s) f = isFlag s f"
  "f \<noteq> kFlagPressed \<Longrightarrow> isFlag (checkPressed now b s) f = isFlag s f"
  "f \<noteq> kFlagDoubleClicked \<Longrightarrow> f \<noteq> kFlagClickPostponed \<Longrightarrow>
     isFlag (checkDoubleClicked cfg now s) f = isFlag s f"
  by (simp_all add: checkHeartBeat_def checkPostponedClick_def checkOrphanedClick_def checkLongPress_def
      checkRepeatPress_def checkPressed_def checkDoubleClicked_def Let_def)

lemma checkClicked_flags:
  "f \<noteq> kFlagClicked \<Longrightarrow> f \<noteq> kFlagDoubleClicked \<Longrightarrow> f \<noteq> kFlagClickPostponed \<Longrightarrow>
     isFlag (checkClicked cfg now s) f = isFlag s f"
  by (simp add: checkClicked_def stage_flags Let_def)

lemma clickEvaluated_flags:
  "f \<noteq> kFlagClicked \<Longrightarrow> f \<noteq> kFlagDoubleClicked \<Longrightarrow> f \<noteq> kFlagClickPostponed \<Longrightarrow>
     isFlag (clickEvaluated cfg now s) f = isFlag s f"
  by (simp add: clickEvaluated_def checkClicked_flags)

lemma clickEvaluated_level [simp]:
  "mLastButtonState (clickEvaluated cfg now s) = mLastButtonState s"
  by (simp add: clickEvaluated_def)

lemma clickEvaluated_appends:
  "appends s (clickEvaluated cfg now s) {kEventClicked, kEventDoubleClicked} (mLastButtonState s)"
  by (simp add: clickEvaluated_def checkClicked_appends)

lemma checkReleased_unfold:
  "b = getDefaultReleasedState s \<Longrightarrow>
   checkReleased cfg now b s =
     (let s1 = clickEvaluated cfg now s;
          s2 = clearFlag kFlagRepeatPressed (clearFlag kFlagLongPressed
                 (clearFlag kFlagDoubleClicked (clearFlag kFlagPressed s1)))
      in if releasedSuppressed cfg s1
         then (if isFlag s1 kFlagLongPressed then handleEvent kEventLongReleased s2 else s2)
         else handleEvent kEventReleased s2)"
  by (simp add: checkReleased_def clickEvaluated_def releasedSuppressed_def Let_def)

lemma checkReleased_dispatched:
  assumes "b = getDefaultReleasedState s"
  shows "dispatched (checkReleased cfg now b s) =
           dispatched (clickEvaluated cfg now s) @
           (if releasedSuppressed cfg (clickEvaluated cfg now s)
            then (if isFlag s kFlagLongPressed then [(kEventLongReleased, mLastButtonState s)] else [])
            else [(kEventReleased, mLastButtonState s)])"
  by (simp add: checkReleased_unfold [OF assms] Let_def clickEvaluated_flags)

lemma checkReleased_flags:
  assumes "b = getDefaultReleasedState s"
  shows "isFlag (checkReleased cfg now b s) f =
          (f \<notin> {kFlagPressed, kFlagDoubleClicked, kFlagLongPressed, kFlagRepeatPressed} \<and>
           isFlag (clickEvaluated cfg now s) f)"
  by (simp add: checkReleased_unfold [OF assms] Let_def) blast

text \<open>
  C5. On a release (the level handed to \<open>checkReleased\<close> is the released one) the click
  evaluation runs first and dispatches Clicked and DoubleClicked events only. Then, with
  the flags as the click evaluation left them, Released is suppressed exactly when one of
  LongPressed, RepeatPressed, Clicked, DoubleClicked is set and its suppress-after feature
  is enabled. When suppressed after a long press the one event that follows is
  LongReleased, when suppressed without a long press nothing follows, and otherwise
  Released follows. The click evaluation leaves LongPressed and RepeatPressed as the hold
  set them, and at most one of Released and LongReleased is dispatched.
\<close>

theorem checkReleased_suppression:
  "b = getDefaultReleasedState s \<longrightarrow>
   emitted s (checkReleased cfg now b s) =
     emitted s (clickEvaluated cfg now s) @
     (if releasedSuppressed cfg (clickEvaluated cfg now s)
      then (if isFlag s kFlagLongPressed then [(kEventLongReleased, mLastButtonState s)] else [])
      else [(kEventReleased, mLastButtonState s)]) \<and>
   list_all (\<lambda>(e, l). e = kEventClicked \<or> e = kEventDoubleClicked)
     (emitted s (clickEvaluated cfg now s)) \<and>
   isFlag (clickEvaluated cfg now s) kFlagLongPressed = isFlag s kFlagLongPressed \<and>
   isFlag (clickEvaluated cfg now s) kFlagRepeatPressed = isFlag s kFlagRepeatPressed \<and>
   length (filter (\<lambda>(e, l). e = kEventReleased \<or> e = kEventLongReleased)
     (emitted s (checkReleased cfg now b s))) \<le> 1"
proof
  assume rel: "b = getDefaultReleasedState s"
  let ?s1 = "clickEvaluated cfg now s"
  let ?tail = "if releasedSuppressed cfg ?s1
      then (if isFlag s kFlagLongPressed then [(kEventLongReleased, mLastButtonState s)] else [])
      else [(kEventReleased, mLastButtonState s)]"
  from clickEvaluated_appends [of s cfg now] obtain evs where
    evs: "dispatched ?s1 = dispatched s @ evs"
      "list_all (\<lambda>(e, l). e \<in> {kEventClicked, kEventDoubleClicked} \<and> l = mLastButtonState s) evs"
    unfolding appends_def by blast
  have e1: "emitted s ?s1 = evs" using evs(1) by (rule emitted_append)
  have "dispatched (checkReleased cfg now b s) = dispatched s @ (evs @ ?tail)"
    using checkReleased_dispatched [OF rel, of cfg now] evs(1) by simp
  then have e2: "emitted s (checkReleased cfg now b s) = evs @ ?tail" by (rule emitted_append)
  have kinds: "list_all (\<lambda>(e, l). e = kEventClicked \<or> e = kEventDoubleClicked) evs"
    using evs(2) by (auto simp: list_all_iff)
  have "filter (\<lambda>(e, l). e = kEventReleased \<or> e = kEventLongReleased) evs = []"
    using evs(2) by (auto simp: list_all_iff filter_empty_conv event_defs)
  then have cnt: "length (filter (\<lambda>(e, l). e = kEventReleased \<or> e = kEventLongReleased) (evs @ ?tail)) \<le> 1"
    by simp
  show "emitted s (checkReleased cfg now b s) = emitted s ?s1 @ ?tail \<and>
   list_all (\<lambda>(e, l). e = kEventClicked \<or> e = kEventDoubleClicked) (emitted s ?s1) \<and>
   isFlag ?s1 kFlagLongPressed = isFlag s kFlagLongPressed \<and>
   isFlag ?s1 kFlagRepeatPressed = isFlag s kFlagRepeatPressed \<and>
   length (filter (\<lambda>(e, l). e = kEventReleased \<or> e = kEventLongReleased)
     (emitted s (checkReleased cfg now b s))) \<le> 1"
    using e1 e2 kinds cnt by (simp add: clickEvaluated_flags)
qed

theorem checkReleased_suppression_witness:
  "HIGH = getDefaultReleasedState sLongHeld \<and>
   releasedSuppressed cfgLong (clickEvaluated cfgLong 1125 sLongHeld) \<and>
   emitted sLongHeld (checkReleased cfgLong 1125 HIGH sLongHeld) = [(kEventLongReleased, HIGH)]"
proof -
  have h: "HIGH = getDefaultReleasedState sLongHeld"
    by (simp add: sLongHeld_def flag_defs)
  have c: "clickEvaluated cfgLong 1125 sLongHeld = sLongHeld"
    by (simp add: clickEvaluated_def cfgLong_def isFeature_def)
  have s: "releasedSuppressed cfgLong sLongHeld"
    by (simp add: releasedSuppressed_def cfgLong_def sLongHeld_def isFeature_def isFlag_def)
  have e: "emitted sLongHeld sLongHeld = []" by (simp add: emitted_def)
  have l: "isFlag sLongHeld kFlagLongPressed" "mLastButtonState sLongHeld = HIGH"
    by (simp_all add: sLongHeld_def isFlag_def HIGH_def)
  from checkReleased_suppression [of HIGH sLongHeld cfgLong 1125] h
  show ?thesis by (simp add: c s e l)
qed

lemma confirmed_iff:
  "confirmed cfg now b s =
    (if isFlag s kFlagDebouncing then getDebounceDelay cfg \<le>s now - mLastDebounceTime s
     else b = mLastButtonState s)"
  by (simp add: confirmed_def checkDebounced_def Let_def stage_flags checkHeartBeat_keeps)

lemma confirmed_gate:
  "confirmed cfg now b s \<Longrightarrow>
   checkDebounced cfg now b (checkHeartBeat cfg now s) =
     (True, clearFlag kFlagDebouncing (checkHeartBeat cfg now s))"
  unfolding confirmed_def
  by (auto simp: checkDebounced_def Let_def clearFlag_def isFlag_def split: if_splits)

lemma beforeChange_level [simp]:
  "mLastButtonState (beforeChange cfg now b s) = mLastButtonState s"
  by (simp add: beforeChange_def Let_def)

lemma beforeChange_flags:
  "f \<notin> {kFlagClickPostponed, kFlagClicked, kFlagLongPressed, kFlagRepeatPressed} \<Longrightarrow>
     isFlag (beforeChange cfg now b s) f = isFlag s f"
  by (simp add: beforeChange_def Let_def stage_flags)

lemma getDefaultReleasedState_flag:
  "isFlag s' kFlagDefaultReleasedState = isFlag s kFlagDefaultReleasedState \<Longrightarrow>
   getDefaultReleasedState s' = getDefaultReleasedState s"
  by (simp add: getDefaultReleasedState_def)

lemma beforeChange_released [simp]:
  "getDefaultReleasedState (beforeChange cfg now b s) = getDefaultReleasedState s"
  by (rule getDefaultReleasedState_flag) (simp add: beforeChange_flags)

lemma checkEvent_unfold:
  "checkEvent cfg now b s =
    (if b \<noteq> mLastButtonState s then checkChanged cfg now b (beforeChange cfg now b s)
     else beforeChange cfg now b s)"
  by (simp add: checkEvent_def beforeChange_def Let_def)

lemma checkState_confirmed:
  assumes "confirmed cfg now b s" and "mLastButtonState s \<noteq> kButtonStateUnknown"
  shows "checkState cfg now b s =
           checkEvent cfg now b (clearFlag kFlagDebouncing (checkHeartBeat cfg now s))"
  by (simp add: checkState_def confirmed_gate [OF assms(1)] checkInitialized_def assms(2))

lemma checkChanged_release:
  assumes "b = getDefaultReleasedState s"
  shows "checkChanged cfg now b s = checkReleased cfg now b (s\<lparr>mLastButtonState := b\<rparr>)"
  using assms by (simp add: checkChanged_def checkPressed_def)

text \<open>
  C1, as amended. When \<open>checkState\<close> processes a release (the sample is confirmed, the
  button is initialised, the level differs from the last confirmed one and is the released
  level), the flags Debouncing, Pressed, LongPressed, RepeatPressed and DoubleClicked are
  clear when the pass ends. Clicked and ClickPostponed are not among them.
\<close>

theorem release_clears_hold_flags:
  assumes "confirmed cfg now b s" and "mLastButtonState s \<noteq> kButtonStateUnknown"
    and "b \<noteq> mLastButtonState s" and "b = getDefaultReleasedState s"
  shows "\<not> isFlag (checkState cfg now b s) kFlagDebouncing \<and>
         \<not> isFlag (checkState cfg now b s) kFlagPressed \<and>
         \<not> isFlag (checkState cfg now b s) kFlagLongPressed \<and>
         \<not> isFlag (checkState cfg now b s) kFlagRepeatPressed \<and>
         \<not> isFlag (checkState cfg now b s) kFlagDoubleClicked"
proof -
  let ?g = "clearFlag kFlagDebouncing (checkHeartBeat cfg now s)"
  let ?p = "(beforeChange cfg now b ?g)\<lparr>mLastButtonState := b\<rparr>"
  have rel: "getDefaultReleasedState ?g = getDefaultReleasedState s"
    by (rule getDefaultReleasedState_flag) (simp add: stage_flags)
  have "checkState cfg now b s = checkChanged cfg now b (beforeChange cfg now b ?g)"
    using assms(3) by (simp add: checkState_confirmed [OF assms(1,2)] checkEvent_unfold)
  also have "\<dots> = checkReleased cfg now b ?p"
    using assms(4) rel by (simp add: checkChanged_release)
  finally have st: "checkState cfg now b s = checkReleased cfg now b ?p" .
  have b: "b = getDefaultReleasedState ?p" using assms(4) rel by simp
  have deb: "\<not> isFlag (clickEvaluated cfg now ?p) kFlagDebouncing"
    by (simp add: clickEvaluated_flags beforeChange_flags)
  show ?thesis unfolding st using deb by (simp add: checkReleased_flags [OF b])
qed

text \<open>
  C1 as stated fails: a release 80 ms after the press, with Click, DoubleClick and the
  postponement enabled, is a single click, and the pass ends with Clicked and
  ClickPostponed set.
\<close>

theorem release_keeps_click_flags:
  "confirmed cfgPostpone 180 HIGH sHeld \<and> mLastButtonState sHeld \<noteq> kButtonStateUnknown \<and>
   HIGH \<noteq> mLastButtonState sHeld \<and> HIGH = getDefaultReleasedState sHeld \<and>
   emitted sHeld (checkState cfgPostpone 180 HIGH sHeld) = [(kEventReleased, HIGH)] \<and>
   isFlag (checkState cfgPostpone 180 HIGH sHeld) kFlagClicked \<and>
   isFlag (checkState cfgPostpone 180 HIGH sHeld) kFlagClickPostponed"
  by (simp add: confirmed_def emitted_def cfgPostpone_def sHeld_def check_defs flag_defs)

theorem release_clears_hold_flags_witness:
  "confirmed cfgPostpone 180 HIGH sHeld \<and> mLastButtonState sHeld \<noteq> kButtonStateUnknown \<and>
   HIGH \<noteq> mLastButtonState sHeld \<and> HIGH = getDefaultReleasedState sHeld \<and>
   isFlag sHeld kFlagDebouncing \<and> isFlag sHeld kFlagPressed \<and>
   \<not> isFlag (checkState cfgPostpone 180 HIGH sHeld) kFlagDebouncing \<and>
   \<not> isFlag (checkState cfgPostpone 180 HIGH sHeld) kFlagPressed \<and>
   \<not> isFlag (checkState cfgPostpone 180 HIGH sHeld) kFlagLongPressed \<and>
   \<not> isFlag (checkState cfgPostpone 180 HIGH sHeld) kFlagRepeatPressed \<and>
   \<not> isFlag (checkState cfgPostpone 180 HIGH sHeld) kFlagDoubleClicked"
proof -
  have h: "confirmed cfgPostpone 180 HIGH sHeld" "mLastButtonState sHeld \<noteq> kButtonStateUnknown"
    "HIGH \<noteq> mLastButtonState sHeld" "HIGH = getDefaultReleasedState sHeld"
    by (simp_all add: confirmed_def cfgPostpone_def sHeld_def check_defs flag_defs)
  have i: "isFlag sHeld kFlagDebouncing" "isFlag sHeld kFlagPressed"
    by (simp_all add: sHeld_def isFlag_def)
  from release_clears_hold_flags [OF h] h i show ?thesis by simp
qed

subsection \<open>The level an event carries\<close>

lemma appends_left: "dispatched s0 = dispatched s \<Longrightarrow> appends s0 s' K L = appends s s' K L"
  by (simp add: appends_def)

lemma beforeChange_appends:
  "appends s (beforeChange cfg now b s) {kEventClicked, kEventLongPressed, kEventRepeatPressed}
     (mLastButtonState s)"
proof -
  let ?s1 = "if isFeature cfg kFeatureClick \<or> isFeature cfg kFeatureDoubleClick
               then checkOrphanedClick cfg now (checkPostponedClick cfg now s) else s"
  let ?s2 = "if isFeature cfg kFeatureLongPress then checkLongPress cfg now b ?s1 else ?s1"
  let ?s3 = "if isFeature cfg kFeatureRepeatPress then checkRepeatPress cfg now b ?s2 else ?s2"
  have a: "appends s ?s1 {kEventClicked} (mLastButtonState s)"
    using checkPostponedClick_appends [of s cfg now]
    by (simp add: appends_dispatched_eq [of "checkOrphanedClick cfg now (checkPostponedClick cfg now s)"
          "checkPostponedClick cfg now s"])
  have l1: "mLastButtonState ?s1 = mLastButtonState s" by simp
  have b: "appends ?s1 ?s2 {kEventLongPressed} (mLastButtonState s)"
    using checkLongPress_appends [of ?s1 cfg now b] by (simp only: l1 appends_refl if_split) simp
  have l2: "mLastButtonState ?s2 = mLastButtonState s" by simp
  have c: "appends ?s2 ?s3 {kEventRepeatPressed} (mLastButtonState s)"
    using checkRepeatPress_appends [of ?s2 cfg now b] by (simp only: l2 appends_refl if_split) simp
  have "appends s ?s3 (({kEventClicked} \<union> {kEventLongPressed}) \<union> {kEventRepeatPressed}) (mLastButtonState s)"
    by (rule appends_trans [OF appends_trans [OF a b] c])
  moreover have "beforeChange cfg now b s = ?s3" by (simp add: beforeChange_def Let_def)
  ultimately show ?thesis by (simp add: insert_commute)
qed

lemma checkReleased_appends:
  "appends s (checkReleased cfg now b s)
     {kEventClicked, kEventDoubleClicked, kEventReleased, kEventLongReleased} (mLastButtonState s)"
proof (cases "b = getDefaultReleasedState s")
  case False
  then show ?thesis by (simp add: checkReleased_def)
next
  case True
  let ?s1 = "clickEvaluated cfg now s"
  have a: "appends s ?s1 {kEventClicked, kEventDoubleClicked} (mLastButtonState s)"
    by (rule clickEvaluated_appends)
  have "list_all (\<lambda>(e, l). e \<in> {kEventReleased, kEventLongReleased} \<and> l = mLastButtonState s)
          (if releasedSuppressed cfg ?s1
            then (if isFlag s kFlagLongPressed then [(kEventLongReleased, mLastButtonState s)] else [])
            else [(kEventReleased, mLastButtonState s)])"
    by simp
  then have b: "appends ?s1 (checkReleased cfg now b s) {kEventReleased, kEventLongReleased}
      (mLastButtonState s)"
    unfolding appends_def using checkReleased_dispatched [OF True, of cfg now] by blast
  from appends_trans [OF a b] show ?thesis by (rule appends_mono) auto
qed

lemma checkChanged_appends:
  "appends s (checkChanged cfg now b s)
     {kEventPressed, kEventClicked, kEventDoubleClicked, kEventReleased, kEventLongReleased} b"
proof -
  let ?s0 = "s\<lparr>mLastButtonState := b\<rparr>"
  let ?s1 = "checkPressed now b ?s0"
  have a: "appends s ?s1 {kEventPressed} b"
    using checkPressed_appends [of ?s0 now b] by (simp add: appends_left [of ?s0 s])
  have "appends ?s1 (checkReleased cfg now b ?s1)
     {kEventClicked, kEventDoubleClicked, kEventReleased, kEventLongReleased} (mLastButtonState ?s1)"
    by (rule checkReleased_appends)
  then have b: "appends ?s1 (checkChanged cfg now b s)
     {kEventClicked, kEventDoubleClicked, kEventReleased, kEventLongReleased} b"
    by (simp add: checkChanged_def)
  from appends_trans [OF a b] show ?thesis by (rule appends_mono) auto
qed

lemma checkChanged_level [simp]: "mLastButtonState (checkChanged cfg now b s) = b"
  by (simp add: checkChanged_def checkReleased_def Let_def)


lemma checkDebounced_dispatched [simp]:
  "dispatched (snd (checkDebounced cfg now b s)) = dispatched s"
  by (simp add: checkDebounced_def Let_def)

lemma checkState_unconfirmed:
  assumes "\<not> confirmed cfg now b s"
  shows "checkState cfg now b s = snd (checkDebounced cfg now b (checkHeartBeat cfg now s))"
proof -
  obtain d s2 where g: "checkDebounced cfg now b (checkHeartBeat cfg now s) = (d, s2)"
    by (cases "checkDebounced cfg now b (checkHeartBeat cfg now s)")
  with assms have "\<not> d" by (simp add: confirmed_def)
  then show ?thesis by (simp add: checkState_def g)
qed

lemma checkState_uninitialized:
  assumes "confirmed cfg now b s" and "mLastButtonState s = kButtonStateUnknown"
  shows "checkState cfg now b s =
           (clearFlag kFlagDebouncing (checkHeartBeat cfg now s))\<lparr>mLastButtonState := to_uint16_t b\<rparr>"
  by (simp add: checkState_def confirmed_gate [OF assms(1)] checkInitialized_def assms(2))

lemma appends_right:
  "dispatched s2 = dispatched s1 \<Longrightarrow> appends s s1 K L \<Longrightarrow> appends s s2 K L"
  by (simp add: appends_def)

text \<open>
  C10. \<open>handleEvent\<close> dispatches the event with \<open>mLastButtonState\<close> as it is at that
  moment. Over one \<open>checkState\<close> the events fall in two runs. The first (HeartBeat, a
  flushed Clicked, LongPressed, RepeatPressed) carries the level confirmed before the
  call. The second is dispatched by \<open>checkChanged\<close>, after it has stored the sample's level
  in \<open>mLastButtonState\<close>; it exists only for a confirmed sample and carries the newly
  confirmed level. So Pressed and Released report the level that \<open>mLastButtonState\<close> holds
  after the call, HeartBeat the level it held before, and a sample that the gate rejects
  dispatches at most a HeartBeat, at the previously confirmed level.
\<close>

theorem dispatched_levels:
  "dispatched (handleEvent e s) = dispatched s @ [(e, mLastButtonState s)] \<and>
   (\<exists>pre post.
      emitted s (checkState cfg now b s) = pre @ post \<and>
      list_all (\<lambda>(e, l). e \<in> {kEventHeartBeat, kEventClicked, kEventLongPressed, kEventRepeatPressed}
                  \<and> l = mLastButtonState s) pre \<and>
      list_all (\<lambda>(e, l). e \<in> {kEventPressed, kEventClicked, kEventDoubleClicked, kEventReleased,
                    kEventLongReleased} \<and> l = b) post \<and>
      (post \<noteq> [] \<longrightarrow> confirmed cfg now b s \<and> mLastButtonState (checkState cfg now b s) = b)) \<and>
   list_all (\<lambda>(e, l). (e = kEventPressed \<or> e = kEventReleased \<longrightarrow>
                 l = mLastButtonState (checkState cfg now b s)) \<and>
              (e = kEventHeartBeat \<longrightarrow> l = mLastButtonState s))
     (emitted s (checkState cfg now b s)) \<and>
   (\<not> confirmed cfg now b s \<longrightarrow>
      emitted s (checkState cfg now b s) =
        (if heartBeatDue cfg now s then [(kEventHeartBeat, mLastButtonState s)] else []))"
proof -
  let ?s' = "checkState cfg now b s"
  let ?h = "checkHeartBeat cfg now s"
  let ?g = "clearFlag kFlagDebouncing ?h"
  let ?K1 = "{kEventHeartBeat, kEventClicked, kEventLongPressed, kEventRepeatPressed}"
  let ?K2 = "{kEventPressed, kEventClicked, kEventDoubleClicked, kEventReleased, kEventLongReleased}"
  have hb: "appends s ?h {kEventHeartBeat} (mLastButtonState s)"
    by (rule checkHeartBeat_appends)
  have split: "\<exists>m. appends s m ?K1 (mLastButtonState s) \<and> appends m ?s' ?K2 b \<and>
      (dispatched ?s' \<noteq> dispatched m \<longrightarrow> confirmed cfg now b s \<and> mLastButtonState ?s' = b)"
  proof (cases "confirmed cfg now b s")
    case False
    have "dispatched ?s' = dispatched ?h"
      by (simp add: checkState_unconfirmed [OF False])
    then have "appends s ?s' {kEventHeartBeat} (mLastButtonState s)"
      using hb by (rule appends_right)
    then have "appends s ?s' ?K1 (mLastButtonState s)" by (rule appends_mono) auto
    then show ?thesis by (intro exI [of _ ?s']) simp
  next
    case conf: True
    show ?thesis
    proof (cases "mLastButtonState s = kButtonStateUnknown")
      case True
      have "dispatched ?s' = dispatched ?h"
        by (simp add: checkState_uninitialized [OF conf True])
      then have "appends s ?s' {kEventHeartBeat} (mLastButtonState s)"
        using hb by (rule appends_right)
      then have "appends s ?s' ?K1 (mLastButtonState s)" by (rule appends_mono) auto
      then show ?thesis by (intro exI [of _ ?s']) simp
    next
      case False
      have st: "?s' = checkEvent cfg now b ?g" by (rule checkState_confirmed [OF conf False])
      have "dispatched ?g = dispatched ?h" by simp
      then have g: "appends s ?g {kEventHeartBeat} (mLastButtonState s)"
        using hb by (rule appends_right)
      have "appends ?g (beforeChange cfg now b ?g) {kEventClicked, kEventLongPressed, kEventRepeatPressed}
          (mLastButtonState ?g)"
        by (rule beforeChange_appends)
      then have "appends ?g (beforeChange cfg now b ?g) {kEventClicked, kEventLongPressed, kEventRepeatPressed}
          (mLastButtonState s)" by simp
      from appends_trans [OF g this]
      have pre: "appends s (beforeChange cfg now b ?g) ?K1 (mLastButtonState s)"
        by (rule appends_mono) auto
      show ?thesis
      proof (cases "b = mLastButtonState s")
        case True
        then have "checkEvent cfg now b ?g = beforeChange cfg now b ?g"
          by (simp add: checkEvent_unfold)
        then have "?s' = beforeChange cfg now b ?g" by (simp only: st)
        with pre show ?thesis by (intro exI [of _ ?s']) simp
      next
        case False
        then have ch: "?s' = checkChanged cfg now b (beforeChange cfg now b ?g)"
          by (simp add: st checkEvent_unfold)
        have "appends (beforeChange cfg now b ?g) ?s' ?K2 b"
          unfolding ch by (rule checkChanged_appends)
        moreover have "mLastButtonState ?s' = b" unfolding ch by simp
        ultimately show ?thesis using pre conf
          by (intro exI [of _ "beforeChange cfg now b ?g"]) simp
      qed
    qed
  qed
  then obtain m where m1: "appends s m ?K1 (mLastButtonState s)" and m2: "appends m ?s' ?K2 b"
    and new: "dispatched ?s' \<noteq> dispatched m \<longrightarrow> confirmed cfg now b s \<and> mLastButtonState ?s' = b"
    by (elim exE conjE)
  from m1 obtain pre where
    pre: "dispatched m = dispatched s @ pre"
      "list_all (\<lambda>(e, l). e \<in> ?K1 \<and> l = mLastButtonState s) pre"
    unfolding appends_def by (elim exE conjE)
  from m2 obtain post where
    post: "dispatched ?s' = dispatched m @ post" "list_all (\<lambda>(e, l). e \<in> ?K2 \<and> l = b) post"
    unfolding appends_def by (elim exE conjE)
  have "dispatched ?s' = dispatched s @ (pre @ post)" using pre(1) post(1) by simp
  then have em: "emitted s ?s' = pre @ post" by (rule emitted_append)
  have new': "post \<noteq> [] \<longrightarrow> confirmed cfg now b s \<and> mLastButtonState ?s' = b"
    using new post(1) by simp
  have A: "\<exists>pre post.
      emitted s ?s' = pre @ post \<and>
      list_all (\<lambda>(e, l). e \<in> ?K1 \<and> l = mLastButtonState s) pre \<and>
      list_all (\<lambda>(e, l). e \<in> ?K2 \<and> l = b) post \<and>
      (post \<noteq> [] \<longrightarrow> confirmed cfg now b s \<and> mLastButtonState ?s' = b)"
    by (intro exI [of _ pre] exI [of _ post] conjI em pre(2) post(2) new')
  have p1: "list_all (\<lambda>(e, l). (e = kEventPressed \<or> e = kEventReleased \<longrightarrow> l = mLastButtonState ?s') \<and>
              (e = kEventHeartBeat \<longrightarrow> l = mLastButtonState s)) pre"
    using pre(2) by (auto simp: list_all_iff event_defs)
  have p2: "list_all (\<lambda>(e, l). (e = kEventPressed \<or> e = kEventReleased \<longrightarrow> l = mLastButtonState ?s') \<and>
              (e = kEventHeartBeat \<longrightarrow> l = mLastButtonState s)) post"
  proof (cases "post = []")
    case True
    then show ?thesis by simp
  next
    case False
    with new' have "mLastButtonState ?s' = b" by simp
    then show ?thesis using post(2) by (auto simp: list_all_iff event_defs)
  qed
  have B: "list_all (\<lambda>(e, l). (e = kEventPressed \<or> e = kEventReleased \<longrightarrow> l = mLastButtonState ?s') \<and>
              (e = kEventHeartBeat \<longrightarrow> l = mLastButtonState s)) (emitted s ?s')"
    using p1 p2 by (simp add: em)
  have C: "\<not> confirmed cfg now b s \<longrightarrow>
      emitted s ?s' = (if heartBeatDue cfg now s then [(kEventHeartBeat, mLastButtonState s)] else [])"
  proof
    assume nc: "\<not> confirmed cfg now b s"
    have "dispatched ?s' = dispatched s @
        (if heartBeatDue cfg now s then [(kEventHeartBeat, mLastButtonState s)] else [])"
      by (simp add: checkState_unconfirmed [OF nc] checkHeartBeat_dispatched)
    then show "emitted s ?s' =
        (if heartBeatDue cfg now s then [(kEventHeartBeat, mLastButtonState s)] else [])"
      by (rule emitted_append)
  qed
  have D: "dispatched (handleEvent e s) = dispatched s @ [(e, mLastButtonState s)]" by simp
  show ?thesis by (intro conjI D A B C)
qed

theorem dispatched_levels_witness:
  "\<not> confirmed cfgW 5010 LOW sPending \<and> heartBeatDue cfgW 5010 sPending \<and>
   LOW \<noteq> mLastButtonState sPending \<and>
   emitted sPending (checkState cfgW 5010 LOW sPending) = [(kEventHeartBeat, HIGH)] \<and>
   confirmed cfgW 5025 LOW sPending \<and>
   emitted sPending (checkState cfgW 5025 LOW sPending) = [(kEventHeartBeat, HIGH), (kEventPressed, LOW)] \<and>
   mLastButtonState (checkState cfgW 5025 LOW sPending) = LOW"
proof -
  have h: "\<not> confirmed cfgW 5010 LOW sPending" "heartBeatDue cfgW 5010 sPending"
    "LOW \<noteq> mLastButtonState sPending" "mLastButtonState sPending = HIGH"
    by (simp_all add: confirmed_iff heartBeatDue_def cfgW_def sPending_def isFlag_def isFeature_def
        LOW_def HIGH_def)
  have e1: "emitted sPending (checkState cfgW 5010 LOW sPending) = [(kEventHeartBeat, HIGH)]"
    using dispatched_levels [of kEventHeartBeat sPending cfgW 5010 LOW] h by simp
  have c: "confirmed cfgW 5025 LOW sPending"
    by (simp add: confirmed_iff cfgW_def sPending_def isFlag_def)
  have e2: "emitted sPending (checkState cfgW 5025 LOW sPending) =
      [(kEventHeartBeat, HIGH), (kEventPressed, LOW)] \<and>
      mLastButtonState (checkState cfgW 5025 LOW sPending) = LOW"
    by (simp add: emitted_def cfgW_def sPending_def check_defs flag_defs)
  from h e1 c e2 show ?thesis by simp
qed

subsection \<open>Click housekeeping\<close>

lemma appends_if: "appends s t K L \<Longrightarrow> appends s (if c then t else s) K L"
  by simp

lemma housekeeping_decays:
  assumes "getDoubleClickDelay cfg \<le>s now - mLastClickTime s"
  shows "\<not> isFlag (checkOrphanedClick cfg now (checkPostponedClick cfg now s)) kFlagClicked"
    and "\<not> isFlag (checkOrphanedClick cfg now (checkPostponedClick cfg now s)) kFlagClickPostponed"
    and "dispatched (checkOrphanedClick cfg now (checkPostponedClick cfg now s)) =
           dispatched s @ (if isFlag s kFlagClickPostponed then [(kEventClicked, mLastButtonState s)] else [])"
  using assms by (simp_all add: checkOrphanedClick_def checkPostponedClick_def Let_def)

lemma checkLongPress_keeps [simp]:
  "mLastClickTime (checkLongPress cfg now b s) = mLastClickTime s"
  "mLastPressTime (checkLongPress cfg now b s) = mLastPressTime s"
  by (simp_all add: checkLongPress_def Let_def)

lemma checkRepeatPress_keeps [simp]:
  "mLastClickTime (checkRepeatPress cfg now b s) = mLastClickTime s"
  "mLastPressTime (checkRepeatPress cfg now b s) = mLastPressTime s"
  by (simp_all add: checkRepeatPress_def Let_def)

lemma beforeChange_decays:
  assumes "clickFeature cfg" and "getDoubleClickDelay cfg \<le>s now - mLastClickTime s"
  shows "\<not> isFlag (beforeChange cfg now b s) kFlagClicked"
    and "\<not> isFlag (beforeChange cfg now b s) kFlagClickPostponed"
  using assms housekeeping_decays(1,2) [OF assms(2)]
  by (simp_all add: beforeChange_def clickFeature_def Let_def stage_flags)

lemma beforeChange_flush:
  assumes "clickFeature cfg" and "getDoubleClickDelay cfg \<le>s now - mLastClickTime s"
    and "isFlag s kFlagClickPostponed"
  shows "\<exists>evs. dispatched (beforeChange cfg now b s) =
           dispatched s @ (kEventClicked, mLastButtonState s) # evs"
proof -
  let ?s1 = "checkOrphanedClick cfg now (checkPostponedClick cfg now s)"
  let ?s2 = "if isFeature cfg kFeatureLongPress then checkLongPress cfg now b ?s1 else ?s1"
  let ?s3 = "if isFeature cfg kFeatureRepeatPress then checkRepeatPress cfg now b ?s2 else ?s2"
  have bc: "beforeChange cfg now b s = ?s3"
    using assms(1) by (simp add: beforeChange_def clickFeature_def Let_def)
  have d1: "dispatched ?s1 = dispatched s @ [(kEventClicked, mLastButtonState s)]"
    using housekeeping_decays(3) [OF assms(2)] assms(3) by simp
  have "appends ?s1 ?s2 {kEventLongPressed} (mLastButtonState ?s1)"
    by (rule appends_if) (rule checkLongPress_appends)
  then obtain e2 where d2: "dispatched ?s2 = dispatched ?s1 @ e2" unfolding appends_def by (elim exE conjE)
  have "appends ?s2 ?s3 {kEventRepeatPressed} (mLastButtonState ?s2)"
    by (rule appends_if) (rule checkRepeatPress_appends)
  then obtain e3 where d3: "dispatched ?s3 = dispatched ?s2 @ e3" unfolding appends_def by (elim exE conjE)
  have "dispatched ?s3 = dispatched s @ (kEventClicked, mLastButtonState s) # (e2 @ e3)"
    by (simp only: d3 d2 d1) simp
  then show ?thesis unfolding bc by (rule exI)
qed

lemma checkClicked_fresh:
  assumes "\<not> isFlag s kFlagClicked" and "\<not> isFlag s kFlagClickPostponed"
    and "isFlag (checkClicked cfg now s) kFlagClicked \<or> isFlag (checkClicked cfg now s) kFlagClickPostponed"
  shows "mLastClickTime (checkClicked cfg now s) = now"
  using assms by (simp add: checkClicked_def checkDoubleClicked_def Let_def split: if_splits)

lemma checkDebounced_rejects:
  "\<not> fst (checkDebounced cfg now b s) \<Longrightarrow>
   snd (checkDebounced cfg now b s) =
     (if isFlag s kFlagDebouncing then s else (setFlag kFlagDebouncing s)\<lparr>mLastDebounceTime := now\<rparr>)"
  by (simp add: checkDebounced_def Let_def split: if_splits)

lemma checkState_cases:
  "checkState cfg now b s =
    (if \<not> confirmed cfg now b s then snd (checkDebounced cfg now b (checkHeartBeat cfg now s))
     else if mLastButtonState s = kButtonStateUnknown
       then (clearFlag kFlagDebouncing (checkHeartBeat cfg now s))\<lparr>mLastButtonState := to_uint16_t b\<rparr>
     else if b = mLastButtonState s
       then beforeChange cfg now b (clearFlag kFlagDebouncing (checkHeartBeat cfg now s))
     else checkChanged cfg now b
            (beforeChange cfg now b (clearFlag kFlagDebouncing (checkHeartBeat cfg now s))))"
proof (cases "confirmed cfg now b s")
  case False
  then show ?thesis by (simp add: checkState_unconfirmed)
next
  case conf: True
  show ?thesis
  proof (cases "mLastButtonState s = kButtonStateUnknown")
    case True
    with conf show ?thesis by (simp add: checkState_uninitialized)
  next
    case False
    with conf show ?thesis
      by (simp add: checkState_confirmed checkEvent_unfold)
  qed
qed

lemma gate_click_state [simp]:
  "isFlag (snd (checkDebounced cfg now b s)) kFlagClicked = isFlag s kFlagClicked"
  "isFlag (snd (checkDebounced cfg now b s)) kFlagClickPostponed = isFlag s kFlagClickPostponed"
  "mLastClickTime (snd (checkDebounced cfg now b s)) = mLastClickTime s"
  by (simp_all add: checkDebounced_def Let_def)

lemma checkHeartBeat_click_time [simp]:
  "mLastClickTime (checkHeartBeat cfg now s) = mLastClickTime s"
  by (simp add: checkHeartBeat_keeps)

lemma beforeChange_off:
  assumes "\<not> clickFeature cfg"
  shows "isFlag (beforeChange cfg now b s) kFlagClicked = isFlag s kFlagClicked"
    and "isFlag (beforeChange cfg now b s) kFlagClickPostponed = isFlag s kFlagClickPostponed"
    and "mLastClickTime (beforeChange cfg now b s) = mLastClickTime s"
    and "appends s (beforeChange cfg now b s) {kEventLongPressed, kEventRepeatPressed} (mLastButtonState s)"
proof -
  let ?s2 = "if isFeature cfg kFeatureLongPress then checkLongPress cfg now b s else s"
  let ?s3 = "if isFeature cfg kFeatureRepeatPress then checkRepeatPress cfg now b ?s2 else ?s2"
  have bc: "beforeChange cfg now b s = ?s3"
    using assms by (simp add: beforeChange_def clickFeature_def Let_def)
  show "isFlag (beforeChange cfg now b s) kFlagClicked = isFlag s kFlagClicked"
    "isFlag (beforeChange cfg now b s) kFlagClickPostponed = isFlag s kFlagClickPostponed"
    "mLastClickTime (beforeChange cfg now b s) = mLastClickTime s"
    unfolding bc by (simp_all add: stage_flags)
  have a: "appends s ?s2 {kEventLongPressed} (mLastButtonState s)"
    by (rule appends_if) (rule checkLongPress_appends)
  have l: "mLastButtonState ?s2 = mLastButtonState s" by simp
  have "appends ?s2 ?s3 {kEventRepeatPressed} (mLastButtonState ?s2)"
    by (rule appends_if) (rule checkRepeatPress_appends)
  then have b: "appends ?s2 ?s3 {kEventRepeatPressed} (mLastButtonState s)" by (simp only: l)
  from appends_trans [OF a b]
  show "appends s (beforeChange cfg now b s) {kEventLongPressed, kEventRepeatPressed} (mLastButtonState s)"
    unfolding bc by (rule appends_mono) auto
qed

lemma checkReleased_click_time:
  "b = getDefaultReleasedState s \<Longrightarrow>
   mLastClickTime (checkReleased cfg now b s) = mLastClickTime (clickEvaluated cfg now s)"
  by (simp add: checkReleased_unfold Let_def)

lemma checkPressed_click_time [simp]:
  "mLastClickTime (checkPressed now b s) = mLastClickTime s"
  by (simp add: checkPressed_def)

lemma checkChanged_off:
  assumes "\<not> clickFeature cfg"
  shows "isFlag (checkChanged cfg now b s) kFlagClicked = isFlag s kFlagClicked"
    and "isFlag (checkChanged cfg now b s) kFlagClickPostponed = isFlag s kFlagClickPostponed"
    and "mLastClickTime (checkChanged cfg now b s) = mLastClickTime s"
    and "appends s (checkChanged cfg now b s) {kEventPressed, kEventReleased, kEventLongReleased} b"
proof -
  let ?s0 = "s\<lparr>mLastButtonState := b\<rparr>"
  have ce: "\<And>t. clickEvaluated cfg now t = t"
    using assms by (simp add: clickEvaluated_def clickFeature_def)
  have fl: "isFlag (checkChanged cfg now b s) kFlagClicked = isFlag s kFlagClicked \<and>
    isFlag (checkChanged cfg now b s) kFlagClickPostponed = isFlag s kFlagClickPostponed \<and>
    mLastClickTime (checkChanged cfg now b s) = mLastClickTime s"
  proof (cases "b = getDefaultReleasedState s")
    case True
    then have r: "b = getDefaultReleasedState ?s0" by simp
    have c: "checkChanged cfg now b s = checkReleased cfg now b ?s0"
      using True by (simp add: checkChanged_release)
    show ?thesis
      unfolding c by (simp add: checkReleased_flags [OF r] checkReleased_click_time [OF r] ce)
  next
    case False
    then have c: "checkChanged cfg now b s = checkPressed now b ?s0"
      by (simp add: checkChanged_def checkReleased_def checkPressed_def)
    show ?thesis unfolding c by (simp add: stage_flags)
  qed
  from fl show "isFlag (checkChanged cfg now b s) kFlagClicked = isFlag s kFlagClicked"
    "isFlag (checkChanged cfg now b s) kFlagClickPostponed = isFlag s kFlagClickPostponed"
    "mLastClickTime (checkChanged cfg now b s) = mLastClickTime s"
    by simp_all
  let ?s1 = "checkPressed now b ?s0"
  have a: "appends s ?s1 {kEventPressed} b"
    using checkPressed_appends [of ?s0 now b] by (simp add: appends_left [of ?s0 s])
  have b: "appends ?s1 (checkReleased cfg now b ?s1) {kEventReleased, kEventLongReleased} b"
  proof (cases "b = getDefaultReleasedState ?s1")
    case False
    then show ?thesis by (simp add: checkReleased_def)
  next
    case True
    have "dispatched (checkReleased cfg now b ?s1) = dispatched ?s1 @
           (if releasedSuppressed cfg ?s1
            then (if isFlag ?s1 kFlagLongPressed then [(kEventLongReleased, mLastButtonState ?s1)] else [])
            else [(kEventReleased, mLastButtonState ?s1)])"
      using checkReleased_dispatched [OF True, of cfg now] by (simp only: ce)
    moreover have "list_all (\<lambda>(e, l). e \<in> {kEventReleased, kEventLongReleased} \<and> l = b)
           (if releasedSuppressed cfg ?s1
            then (if isFlag ?s1 kFlagLongPressed then [(kEventLongReleased, mLastButtonState ?s1)] else [])
            else [(kEventReleased, mLastButtonState ?s1)])"
      by simp
    ultimately show ?thesis unfolding appends_def by blast
  qed
  from appends_trans [OF a b]
  show "appends s (checkChanged cfg now b s) {kEventPressed, kEventReleased, kEventLongReleased} b"
    unfolding checkChanged_def by (rule appends_mono) auto
qed

lemma appends_kinds:
  "appends s s' K L \<Longrightarrow> \<exists>evs. dispatched s' = dispatched s @ evs \<and> fst ` set evs \<subseteq> K"
  unfolding appends_def list_all_iff by fastforce

lemma checkChanged_fresh:
  assumes "\<not> isFlag t kFlagClicked" and "\<not> isFlag t kFlagClickPostponed"
    and "isFlag (checkChanged cfg now b t) kFlagClicked \<or>
         isFlag (checkChanged cfg now b t) kFlagClickPostponed"
  shows "b = getDefaultReleasedState t \<and> mLastClickTime (checkChanged cfg now b t) = now"
proof (cases "b = getDefaultReleasedState t")
  case False
  then have "checkChanged cfg now b t = checkPressed now b (t\<lparr>mLastButtonState := b\<rparr>)"
    by (simp add: checkChanged_def checkReleased_def checkPressed_def)
  with assms show ?thesis by (simp add: stage_flags)
next
  case True
  let ?t0 = "t\<lparr>mLastButtonState := b\<rparr>"
  have r: "b = getDefaultReleasedState ?t0" using True by simp
  have c: "checkChanged cfg now b t = checkReleased cfg now b ?t0"
    using True by (simp add: checkChanged_release)
  have fl: "isFlag (clickEvaluated cfg now ?t0) kFlagClicked \<or>
      isFlag (clickEvaluated cfg now ?t0) kFlagClickPostponed"
    using assms(3) unfolding c by (simp add: checkReleased_flags [OF r])
  have t0: "\<not> isFlag ?t0 kFlagClicked" "\<not> isFlag ?t0 kFlagClickPostponed"
    using assms(1,2) by simp_all
  have ce: "clickEvaluated cfg now ?t0 = checkClicked cfg now ?t0"
    using fl t0 by (cases "clickFeature cfg") (simp_all add: clickEvaluated_def clickFeature_def)
  have "mLastClickTime (checkClicked cfg now ?t0) = now"
    using fl unfolding ce by (rule checkClicked_fresh [OF t0])
  then have "mLastClickTime (checkChanged cfg now b t) = now"
    by (simp only: c checkReleased_click_time [OF r] ce)
  with True show ?thesis by (intro conjI)
qed


lemma appends_ex:
  "appends s s' K L \<Longrightarrow> \<exists>evs. dispatched s' = dispatched s @ evs"
  unfolding appends_def by (elim exE conjE) (rule exI)

lemma housekeeping_on:
  assumes conf: "confirmed cfg now b s" and ini: "mLastButtonState s \<noteq> kButtonStateUnknown"
    and cf: "clickFeature cfg" and win: "getDoubleClickDelay cfg \<le>s now - mLastClickTime s"
  shows "b = mLastButtonState s \<Longrightarrow> \<not> isFlag (checkState cfg now b s) kFlagClicked \<and>
           \<not> isFlag (checkState cfg now b s) kFlagClickPostponed"
    and "isFlag (checkState cfg now b s) kFlagClicked \<or>
         isFlag (checkState cfg now b s) kFlagClickPostponed \<Longrightarrow>
           b \<noteq> mLastButtonState s \<and> b = getDefaultReleasedState s \<and>
           mLastClickTime (checkState cfg now b s) = now"
    and "isFlag s kFlagClickPostponed \<Longrightarrow>
           (kEventClicked, mLastButtonState s) \<in> set (emitted s (checkState cfg now b s))"
proof -
  let ?s' = "checkState cfg now b s"
  let ?h = "checkHeartBeat cfg now s"
  let ?g = "clearFlag kFlagDebouncing ?h"
  let ?bc = "beforeChange cfg now b ?g"
  have st1: "b = mLastButtonState s \<Longrightarrow> ?s' = ?bc"
    using conf ini by (simp add: checkState_cases)
  have st2: "b \<noteq> mLastButtonState s \<Longrightarrow> ?s' = checkChanged cfg now b ?bc"
    using conf ini by (simp add: checkState_cases)
  have win': "getDoubleClickDelay cfg \<le>s now - mLastClickTime ?g" using win by simp
  note dec = beforeChange_decays [OF cf win', of b]
  have rel: "getDefaultReleasedState ?bc = getDefaultReleasedState s"
    by (rule getDefaultReleasedState_flag) (simp add: stage_flags beforeChange_flags)
  show "\<not> isFlag ?s' kFlagClicked \<and> \<not> isFlag ?s' kFlagClickPostponed" if "b = mLastButtonState s"
    using dec by (simp only: st1 [OF that] simp_thms)
  show "b \<noteq> mLastButtonState s \<and> b = getDefaultReleasedState s \<and> mLastClickTime ?s' = now"
    if set: "isFlag ?s' kFlagClicked \<or> isFlag ?s' kFlagClickPostponed"
  proof -
    have ne: "b \<noteq> mLastButtonState s"
    proof
      assume e: "b = mLastButtonState s"
      from set dec show False by (simp only: st1 [OF e] simp_thms)
    qed
    note ch = st2 [OF ne]
    from set have "isFlag (checkChanged cfg now b ?bc) kFlagClicked \<or>
        isFlag (checkChanged cfg now b ?bc) kFlagClickPostponed" by (simp only: ch)
    then have f: "b = getDefaultReleasedState ?bc \<and> mLastClickTime (checkChanged cfg now b ?bc) = now"
      by (rule checkChanged_fresh [OF dec])
    from f have "b = getDefaultReleasedState ?bc" by (rule conjunct1)
    then have f1: "b = getDefaultReleasedState s" by (simp only: rel)
    from f have "mLastClickTime (checkChanged cfg now b ?bc) = now" by (rule conjunct2)
    then have f2: "mLastClickTime ?s' = now" by (simp only: ch)
    from ne f1 f2 show ?thesis by (intro conjI)
  qed
  show "(kEventClicked, mLastButtonState s) \<in> set (emitted s ?s')" if post: "isFlag s kFlagClickPostponed"
  proof -
    from post have "isFlag ?g kFlagClickPostponed" by (simp add: stage_flags)
    from beforeChange_flush [OF cf win' this, of b] obtain e1 where
      d1: "dispatched ?bc = dispatched ?g @ (kEventClicked, mLastButtonState ?g) # e1"
      by (elim exE)
    obtain e0 where d0: "dispatched ?g = dispatched s @ e0" by (simp add: checkHeartBeat_dispatched)
    obtain e2 where d2: "dispatched ?s' = dispatched ?bc @ e2"
    proof (cases "b = mLastButtonState s")
      case True
      have "dispatched ?s' = dispatched ?bc @ []" by (simp add: st1 [OF True])
      then show ?thesis by (rule that)
    next
      case False
      from appends_ex [OF checkChanged_appends [of ?bc cfg now b]] obtain e where
        "dispatched (checkChanged cfg now b ?bc) = dispatched ?bc @ e" by (elim exE)
      then have "dispatched ?s' = dispatched ?bc @ e" by (simp only: st2 [OF False])
      then show ?thesis by (rule that)
    qed
    have l: "mLastButtonState ?g = mLastButtonState s" by simp
    have "dispatched ?s' = dispatched s @ (e0 @ (kEventClicked, mLastButtonState s) # e1 @ e2)"
      by (simp only: d2 d1 d0 l) simp
    then have "emitted s ?s' = e0 @ (kEventClicked, mLastButtonState s) # e1 @ e2"
      by (rule emitted_append)
    then show ?thesis by simp
  qed
qed

lemma housekeeping_off:
  assumes off: "\<not> clickFeature cfg"
  shows "isFlag (checkState cfg now b s) kFlagClicked = isFlag s kFlagClicked"
    and "isFlag (checkState cfg now b s) kFlagClickPostponed = isFlag s kFlagClickPostponed"
    and "mLastClickTime (checkState cfg now b s) = mLastClickTime s"
    and "kEventClicked \<notin> fst ` set (emitted s (checkState cfg now b s))"
proof -
  let ?s' = "checkState cfg now b s"
  let ?h = "checkHeartBeat cfg now s"
  let ?g = "clearFlag kFlagDebouncing ?h"
  let ?bc = "beforeChange cfg now b ?g"
  let ?K = "{kEventHeartBeat, kEventLongPressed, kEventRepeatPressed, kEventPressed, kEventReleased,
         kEventLongReleased}"
  show "isFlag ?s' kFlagClicked = isFlag s kFlagClicked"
    by (simp add: checkState_cases beforeChange_off [OF off] checkChanged_off [OF off] stage_flags)
  show "isFlag ?s' kFlagClickPostponed = isFlag s kFlagClickPostponed"
    by (simp add: checkState_cases beforeChange_off [OF off] checkChanged_off [OF off] stage_flags)
  show "mLastClickTime ?s' = mLastClickTime s"
    by (simp add: checkState_cases beforeChange_off [OF off] checkChanged_off [OF off])
  from appends_kinds [OF checkHeartBeat_appends [of s cfg now]] obtain e0 where
    e0: "dispatched ?h = dispatched s @ e0" "fst ` set e0 \<subseteq> {kEventHeartBeat}"
    by (elim exE conjE)
  from appends_kinds [OF beforeChange_off(4) [OF off, of ?g now b]] obtain e1 where
    e1: "dispatched ?bc = dispatched ?g @ e1" "fst ` set e1 \<subseteq> {kEventLongPressed, kEventRepeatPressed}"
    by (elim exE conjE)
  from appends_kinds [OF checkChanged_off(4) [OF off, of ?bc now b]] obtain e2 where
    e2: "dispatched (checkChanged cfg now b ?bc) = dispatched ?bc @ e2"
      "fst ` set e2 \<subseteq> {kEventPressed, kEventReleased, kEventLongReleased}"
    by (elim exE conjE)
  have k0: "fst ` set e0 \<subseteq> ?K" using e0(2) by auto
  have k1: "fst ` set (e0 @ e1) \<subseteq> ?K" using e0(2) e1(2) by auto
  have k2: "fst ` set (e0 @ e1 @ e2) \<subseteq> ?K" using e0(2) e1(2) e2(2) by auto
  have d1: "dispatched ?bc = dispatched s @ (e0 @ e1)" using e0(1) e1(1) by simp
  have d2: "dispatched (checkChanged cfg now b ?bc) = dispatched s @ (e0 @ e1 @ e2)"
    using d1 e2(1) by simp
  have d0: "dispatched (snd (checkDebounced cfg now b ?h)) = dispatched s @ e0"
    using e0(1) by simp
  have d0': "dispatched (?g\<lparr>mLastButtonState := to_uint16_t b\<rparr>) = dispatched s @ e0"
    using e0(1) by simp
  obtain evs where evs: "dispatched ?s' = dispatched s @ evs" "fst ` set evs \<subseteq> ?K"
  proof (cases "confirmed cfg now b s")
    case False
    then have "?s' = snd (checkDebounced cfg now b ?h)" by (simp add: checkState_cases)
    then have "dispatched ?s' = dispatched s @ e0" by (simp only: d0)
    then show ?thesis using k0 by (rule that)
  next
    case conf: True
    show ?thesis
    proof (cases "mLastButtonState s = kButtonStateUnknown")
      case True
      with conf have "?s' = ?g\<lparr>mLastButtonState := to_uint16_t b\<rparr>"
        by (simp add: checkState_cases)
      then have "dispatched ?s' = dispatched s @ e0" by (simp only: d0')
      then show ?thesis using k0 by (rule that)
    next
      case ini: False
      show ?thesis
      proof (cases "b = mLastButtonState s")
        case True
        with conf ini have "?s' = ?bc" by (simp add: checkState_cases)
        then have "dispatched ?s' = dispatched s @ (e0 @ e1)" by (simp only: d1)
        then show ?thesis using k1 by (rule that)
      next
        case False
        with conf ini have "?s' = checkChanged cfg now b ?bc" by (simp add: checkState_cases)
        then have "dispatched ?s' = dispatched s @ (e0 @ e1 @ e2)" by (simp only: d2)
        then show ?thesis using k2 by (rule that)
      qed
    qed
  qed
  have "emitted s ?s' = evs" using evs(1) by (rule emitted_append)
  moreover have "kEventClicked \<notin> ?K" by (simp add: event_defs)
  ultimately show "kEventClicked \<notin> fst ` set (emitted s ?s')" using evs(2) by auto
qed

text \<open>
  C3, as amended. On a confirmed sample of an initialised button, with Click or
  DoubleClick enabled and the double-click window since \<open>mLastClickTime\<close> elapsed, the
  two housekeeping passes run: a postponed click is flushed (its Clicked event is
  dispatched, at the level confirmed before the call), and when the pass ends Clicked and
  ClickPostponed are clear unless this very sample is a release that recorded a fresh
  click at \<open>now\<close>. With neither feature enabled the passes do not run, on any sample: the two
  flags and \<open>mLastClickTime\<close> stay as they were and no Clicked event is dispatched.
\<close>

theorem click_housekeeping:
  "(confirmed cfg now b s \<and> mLastButtonState s \<noteq> kButtonStateUnknown \<and> clickFeature cfg \<and>
    getDoubleClickDelay cfg \<le>s now - mLastClickTime s \<longrightarrow>
      (isFlag s kFlagClickPostponed \<longrightarrow>
         (kEventClicked, mLastButtonState s) \<in> set (emitted s (checkState cfg now b s))) \<and>
      (b = mLastButtonState s \<longrightarrow>
         \<not> isFlag (checkState cfg now b s) kFlagClicked \<and>
         \<not> isFlag (checkState cfg now b s) kFlagClickPostponed) \<and>
      (isFlag (checkState cfg now b s) kFlagClicked \<or>
       isFlag (checkState cfg now b s) kFlagClickPostponed \<longrightarrow>
         b \<noteq> mLastButtonState s \<and> b = getDefaultReleasedState s \<and>
         mLastClickTime (checkState cfg now b s) = now)) \<and>
   (\<not> clickFeature cfg \<longrightarrow>
      isFlag (checkState cfg now b s) kFlagClicked = isFlag s kFlagClicked \<and>
      isFlag (checkState cfg now b s) kFlagClickPostponed = isFlag s kFlagClickPostponed \<and>
      mLastClickTime (checkState cfg now b s) = mLastClickTime s \<and>
      kEventClicked \<notin> fst ` set (emitted s (checkState cfg now b s)))"
proof (intro conjI impI)
  assume a: "confirmed cfg now b s \<and> mLastButtonState s \<noteq> kButtonStateUnknown \<and> clickFeature cfg \<and>
    getDoubleClickDelay cfg \<le>s now - mLastClickTime s"
  then have h: "confirmed cfg now b s" "mLastButtonState s \<noteq> kButtonStateUnknown" "clickFeature cfg"
    "getDoubleClickDelay cfg \<le>s now - mLastClickTime s" by simp_all
  show "(kEventClicked, mLastButtonState s) \<in> set (emitted s (checkState cfg now b s))"
    if "isFlag s kFlagClickPostponed" using that by (rule housekeeping_on(3) [OF h])
  show "\<not> isFlag (checkState cfg now b s) kFlagClicked" if "b = mLastButtonState s"
    using housekeeping_on(1) [OF h that] by (rule conjunct1)
  show "\<not> isFlag (checkState cfg now b s) kFlagClickPostponed" if "b = mLastButtonState s"
    using housekeeping_on(1) [OF h that] by (rule conjunct2)
  show "b \<noteq> mLastButtonState s" if "isFlag (checkState cfg now b s) kFlagClicked \<or>
       isFlag (checkState cfg now b s) kFlagClickPostponed"
    using housekeeping_on(2) [OF h that] by (elim conjE)
  show "b = getDefaultReleasedState s" if "isFlag (checkState cfg now b s) kFlagClicked \<or>
       isFlag (checkState cfg now b s) kFlagClickPostponed"
    using housekeeping_on(2) [OF h that] by (elim conjE)
  show "mLastClickTime (checkState cfg now b s) = now" if "isFlag (checkState cfg now b s) kFlagClicked \<or>
       isFlag (checkState cfg now b s) kFlagClickPostponed"
    using housekeeping_on(2) [OF h that] by (elim conjE)
next
  assume off: "\<not> clickFeature cfg"
  show "isFlag (checkState cfg now b s) kFlagClicked = isFlag s kFlagClicked"
    by (rule housekeeping_off(1) [OF off])
  show "isFlag (checkState cfg now b s) kFlagClickPostponed = isFlag s kFlagClickPostponed"
    by (rule housekeeping_off(2) [OF off])
  show "mLastClickTime (checkState cfg now b s) = mLastClickTime s"
    by (rule housekeeping_off(3) [OF off])
  show "kEventClicked \<notin> fst ` set (emitted s (checkState cfg now b s))"
    by (rule housekeeping_off(4) [OF off])
qed

text \<open>
  C3 as stated fails: with neither Click nor DoubleClick enabled, a confirmed sample long
  after the window leaves Clicked and ClickPostponed set and flushes nothing.
\<close>

theorem stale_click_without_click_features:
  "confirmed cfgLong 10000 HIGH sClicked \<and> mLastButtonState sClicked \<noteq> kButtonStateUnknown \<and>
   getDoubleClickDelay cfgLong \<le>s 10000 - mLastClickTime sClicked \<and>
   isFlag (checkState cfgLong 10000 HIGH sClicked) kFlagClicked \<and>
   isFlag (checkState cfgLong 10000 HIGH sClicked) kFlagClickPostponed \<and>
   emitted sClicked (checkState cfgLong 10000 HIGH sClicked) = []"
  by (simp add: confirmed_def emitted_def cfgLong_def sClicked_def check_defs flag_defs)

theorem click_housekeeping_witness:
  "confirmed cfgPostpone 10000 HIGH sClicked \<and> mLastButtonState sClicked \<noteq> kButtonStateUnknown \<and>
   clickFeature cfgPostpone \<and> getDoubleClickDelay cfgPostpone \<le>s 10000 - mLastClickTime sClicked \<and>
   isFlag sClicked kFlagClickPostponed \<and> HIGH = mLastButtonState sClicked \<and>
   (kEventClicked, HIGH) \<in> set (emitted sClicked (checkState cfgPostpone 10000 HIGH sClicked)) \<and>
   \<not> isFlag (checkState cfgPostpone 10000 HIGH sClicked) kFlagClicked \<and>
   \<not> isFlag (checkState cfgPostpone 10000 HIGH sClicked) kFlagClickPostponed"
proof -
  have h: "confirmed cfgPostpone 10000 HIGH sClicked" "mLastButtonState sClicked \<noteq> kButtonStateUnknown"
    "clickFeature cfgPostpone" "getDoubleClickDelay cfgPostpone \<le>s 10000 - mLastClickTime sClicked"
    "isFlag sClicked kFlagClickPostponed" "HIGH = mLastButtonState sClicked"
    by (simp_all add: confirmed_iff clickFeature_def cfgPostpone_def sClicked_def isFlag_def
        isFeature_def HIGH_def kButtonStateUnknown_def)
  from click_housekeeping [of cfgPostpone 10000 HIGH sClicked] h
  have "(kEventClicked, mLastButtonState sClicked) \<in>
      set (emitted sClicked (checkState cfgPostpone 10000 HIGH sClicked)) \<and>
    \<not> isFlag (checkState cfgPostpone 10000 HIGH sClicked) kFlagClicked \<and>
    \<not> isFlag (checkState cfgPostpone 10000 HIGH sClicked) kFlagClickPostponed"
    by blast
  with h show ?thesis by simp
qed

subsection \<open>The order of the stages\<close>

lemmas stage_defs = clickCleanupStage_def longPressStage_def repeatPressStage_def changeStage_def

lemma beforeChange_stages:
  "beforeChange cfg now b s =
     repeatPressStage cfg now b (longPressStage cfg now b (clickCleanupStage cfg now s))"
  by (simp add: beforeChange_def stage_defs Let_def)

lemma stages_level [simp]:
  "mLastButtonState (clickCleanupStage cfg now s) = mLastButtonState s"
  "mLastButtonState (longPressStage cfg now b s) = mLastButtonState s"
  "mLastButtonState (repeatPressStage cfg now b s) = mLastButtonState s"
  by (simp_all add: stage_defs)

lemma stages_appends:
  "appends s (clickCleanupStage cfg now s) {kEventClicked} (mLastButtonState s)"
  "appends s (longPressStage cfg now b s) {kEventLongPressed} (mLastButtonState s)"
  "appends s (repeatPressStage cfg now b s) {kEventRepeatPressed} (mLastButtonState s)"
proof -
  have "dispatched (checkOrphanedClick cfg now (checkPostponedClick cfg now s)) =
      dispatched (checkPostponedClick cfg now s)" by simp
  then have "appends s (checkOrphanedClick cfg now (checkPostponedClick cfg now s)) {kEventClicked}
      (mLastButtonState s)"
    using checkPostponedClick_appends by (rule appends_right)
  then show "appends s (clickCleanupStage cfg now s) {kEventClicked} (mLastButtonState s)"
    unfolding clickCleanupStage_def by (rule appends_if)
  show "appends s (longPressStage cfg now b s) {kEventLongPressed} (mLastButtonState s)"
    unfolding longPressStage_def by (rule appends_if) (rule checkLongPress_appends)
  show "appends s (repeatPressStage cfg now b s) {kEventRepeatPressed} (mLastButtonState s)"
    unfolding repeatPressStage_def by (rule appends_if) (rule checkRepeatPress_appends)
qed

lemma appends_only:
  "appends s s' {k} L \<Longrightarrow> \<exists>evs. dispatched s' = dispatched s @ evs \<and> list_all (\<lambda>(e, l). e = k) evs"
  unfolding appends_def list_all_iff by fastforce

lemma checkState_stages:
  "checkState cfg now b s =
     (let h = checkHeartBeat cfg now s;
          g = checkDebounced cfg now b h;
          i = checkInitialized (to_uint16_t b) (snd g)
      in if \<not> fst g then snd g
         else if \<not> fst i then snd i
         else changeStage cfg now b
                (repeatPressStage cfg now b
                  (longPressStage cfg now b
                    (clickCleanupStage cfg now (snd i)))))"
  by (simp add: checkState_def checkEvent_def stage_defs Let_def case_prod_unfold)

lemma stage_events:
  "\<exists>e0 e1 e2 e3 e4.
      emitted s (checkState cfg now b s) = e0 @ e1 @ e2 @ e3 @ e4 \<and>
      e0 = (if heartBeatDue cfg now s then [(kEventHeartBeat, mLastButtonState s)] else []) \<and>
      list_all (\<lambda>(e, l). e = kEventClicked) e1 \<and>
      list_all (\<lambda>(e, l). e = kEventLongPressed) e2 \<and>
      list_all (\<lambda>(e, l). e = kEventRepeatPressed) e3 \<and>
      (e4 = [] \<or> b \<noteq> mLastButtonState s) \<and>
      (e1 @ e2 @ e3 @ e4 = [] \<or>
         confirmed cfg now b s \<and> mLastButtonState s \<noteq> kButtonStateUnknown)"
proof -
  let ?s' = "checkState cfg now b s"
  let ?h = "checkHeartBeat cfg now s"
  let ?g = "clearFlag kFlagDebouncing ?h"
  let ?e0 = "if heartBeatDue cfg now s then [(kEventHeartBeat, mLastButtonState s)] else []"
  let ?c = "clickCleanupStage cfg now ?g"
  let ?l = "longPressStage cfg now b ?c"
  let ?r = "repeatPressStage cfg now b ?l"
  have d0: "dispatched ?h = dispatched s @ ?e0" by (rule checkHeartBeat_dispatched)
  show ?thesis
  proof (cases "confirmed cfg now b s \<and> mLastButtonState s \<noteq> kButtonStateUnknown")
    case False
    have "dispatched ?s' = dispatched ?h"
      using False by (auto simp: checkState_cases)
    then have "dispatched ?s' = dispatched s @ (?e0 @ [] @ [] @ [] @ [])" using d0 by simp
    then have "emitted s ?s' = ?e0 @ [] @ [] @ [] @ []" by (rule emitted_append)
    moreover have "list_all (\<lambda>(e, l). e = kEventClicked) ([] :: (uint8_t \<times> int) list)"
      "list_all (\<lambda>(e, l). e = kEventLongPressed) ([] :: (uint8_t \<times> int) list)"
      "list_all (\<lambda>(e, l). e = kEventRepeatPressed) ([] :: (uint8_t \<times> int) list)"
      "([] :: (uint8_t \<times> int) list) = [] \<or> b \<noteq> mLastButtonState s"
      "([] :: (uint8_t \<times> int) list) @ [] @ [] @ [] = [] \<or>
         confirmed cfg now b s \<and> mLastButtonState s \<noteq> kButtonStateUnknown"
      by simp_all
    ultimately show ?thesis
      by (intro exI [of _ ?e0] exI [of _ "[]"] conjI refl)
  next
    case True
    then have conf: "confirmed cfg now b s" and ini: "mLastButtonState s \<noteq> kButtonStateUnknown"
      by simp_all
    from appends_only [OF stages_appends(1) [of ?g cfg now]] obtain e1 where
      e1: "dispatched ?c = dispatched ?g @ e1" "list_all (\<lambda>(e, l). e = kEventClicked) e1"
      by (elim exE conjE)
    from appends_only [OF stages_appends(2) [of ?c cfg now b]] obtain e2 where
      e2: "dispatched ?l = dispatched ?c @ e2" "list_all (\<lambda>(e, l). e = kEventLongPressed) e2"
      by (elim exE conjE)
    from appends_only [OF stages_appends(3) [of ?l cfg now b]] obtain e3 where
      e3: "dispatched ?r = dispatched ?l @ e3" "list_all (\<lambda>(e, l). e = kEventRepeatPressed) e3"
      by (elim exE conjE)
    have dr: "dispatched ?r = dispatched s @ (?e0 @ e1 @ e2 @ e3)"
      using e1(1) e2(1) e3(1) d0 by simp
    have bc: "beforeChange cfg now b ?g = ?r" by (rule beforeChange_stages)
    obtain e4 where e4: "dispatched ?s' = dispatched ?r @ e4" "e4 = [] \<or> b \<noteq> mLastButtonState s"
    proof (cases "b = mLastButtonState s")
      case True
      with conf ini have "?s' = beforeChange cfg now b ?g" by (simp add: checkState_cases)
      then have "dispatched ?s' = dispatched ?r @ []" by (simp only: bc) simp
      then show ?thesis by (rule that) simp
    next
      case False
      with conf ini have st: "?s' = checkChanged cfg now b (beforeChange cfg now b ?g)"
        by (simp add: checkState_cases)
      from appends_ex [OF checkChanged_appends [of ?r cfg now b]] obtain e where
        "dispatched (checkChanged cfg now b ?r) = dispatched ?r @ e" by (elim exE)
      then have "dispatched ?s' = dispatched ?r @ e" by (simp only: st bc)
      moreover have "e = [] \<or> b \<noteq> mLastButtonState s" using False by simp
      ultimately show ?thesis by (rule that)
    qed
    have "dispatched ?s' = dispatched s @ (?e0 @ e1 @ e2 @ e3 @ e4)"
      using e4(1) dr by simp
    then have "emitted s ?s' = ?e0 @ e1 @ e2 @ e3 @ e4" by (rule emitted_append)
    moreover have "e1 @ e2 @ e3 @ e4 = [] \<or>
         confirmed cfg now b s \<and> mLastButtonState s \<noteq> kButtonStateUnknown"
      using True by simp
    ultimately show ?thesis using e1(2) e2(2) e3(2) e4(2)
      by (intro exI [of _ ?e0] exI [of _ e1] exI [of _ e2] exI [of _ e3] exI [of _ e4] conjI refl)
  qed
qed

text \<open>
  C2, as amended. \<open>checkState\<close> runs the heartbeat check first, on every call, then the
  debounce gate. Only when the gate accepts the sample does it go on, in this order:
  initialization, click cleanup (the postponed flush, then the orphan reclaim; when Click
  or DoubleClick is enabled), long-press detection (when LongPress is enabled),
  repeat-press detection (when RepeatPress is enabled), change detection (when the level
  differs from the last confirmed one). The events of one call come in that order: the
  HeartBeat, a flushed Clicked, LongPressed, RepeatPressed, and the events of the change,
  which exist only when the level differs; and beyond the HeartBeat there are none unless
  the sample is confirmed and the button initialised.
\<close>

theorem checkState_stage_order:
  "checkState cfg now b s =
     (let h = checkHeartBeat cfg now s;
          g = checkDebounced cfg now b h;
          i = checkInitialized (to_uint16_t b) (snd g)
      in if \<not> fst g then snd g
         else if \<not> fst i then snd i
         else changeStage cfg now b
                (repeatPressStage cfg now b
                  (longPressStage cfg now b
                    (clickCleanupStage cfg now (snd i))))) \<and>
   (\<exists>e0 e1 e2 e3 e4.
      emitted s (checkState cfg now b s) = e0 @ e1 @ e2 @ e3 @ e4 \<and>
      e0 = (if heartBeatDue cfg now s then [(kEventHeartBeat, mLastButtonState s)] else []) \<and>
      list_all (\<lambda>(e, l). e = kEventClicked) e1 \<and>
      list_all (\<lambda>(e, l). e = kEventLongPressed) e2 \<and>
      list_all (\<lambda>(e, l). e = kEventRepeatPressed) e3 \<and>
      (e4 = [] \<or> b \<noteq> mLastButtonState s) \<and>
      (e1 @ e2 @ e3 @ e4 = [] \<or>
         confirmed cfg now b s \<and> mLastButtonState s \<noteq> kButtonStateUnknown))"
  using checkState_stages [of cfg now b s] stage_events [of s cfg now b] by (rule conjI)

theorem checkState_stage_order_witness:
  "checkState cfgOrder 2000 LOW sOrder =
     repeatPressStage cfgOrder 2000 LOW
       (longPressStage cfgOrder 2000 LOW (clickCleanupStage cfgOrder 2000 sOrder)) \<and>
   emitted sOrder (clickCleanupStage cfgOrder 2000 sOrder) = [(kEventClicked, LOW)] \<and>
   emitted sOrder (checkState cfgOrder 2000 LOW sOrder) =
     [(kEventClicked, LOW), (kEventLongPressed, LOW)]"
proof -
  have g: "checkDebounced cfgOrder 2000 LOW (checkHeartBeat cfgOrder 2000 sOrder) = (True, sOrder)"
    by (simp add: cfgOrder_def sOrder_def checkDebounced_def checkHeartBeat_def flag_defs LOW_def)
  have i: "checkInitialized (to_uint16_t LOW) sOrder = (True, sOrder)"
    by (simp add: sOrder_def checkInitialized_def kButtonStateUnknown_def)
  have l: "mLastButtonState sOrder = LOW" by (simp add: sOrder_def LOW_def)
  have c: "changeStage cfgOrder 2000 LOW
      (repeatPressStage cfgOrder 2000 LOW
        (longPressStage cfgOrder 2000 LOW (clickCleanupStage cfgOrder 2000 sOrder))) =
      repeatPressStage cfgOrder 2000 LOW
        (longPressStage cfgOrder 2000 LOW (clickCleanupStage cfgOrder 2000 sOrder))"
    by (simp add: changeStage_def l)
  have st: "checkState cfgOrder 2000 LOW sOrder =
     repeatPressStage cfgOrder 2000 LOW
       (longPressStage cfgOrder 2000 LOW (clickCleanupStage cfgOrder 2000 sOrder))"
    using checkState_stage_order [of cfgOrder 2000 LOW sOrder] by (simp add: g i c)
  have e1: "emitted sOrder (clickCleanupStage cfgOrder 2000 sOrder) = [(kEventClicked, LOW)]"
    by (simp add: emitted_def clickCleanupStage_def cfgOrder_def sOrder_def checkOrphanedClick_def
        checkPostponedClick_def flag_defs LOW_def)
  have e2: "emitted sOrder (repeatPressStage cfgOrder 2000 LOW
       (longPressStage cfgOrder 2000 LOW (clickCleanupStage cfgOrder 2000 sOrder))) =
     [(kEventClicked, LOW), (kEventLongPressed, LOW)]"
    by (simp add: emitted_def stage_defs cfgOrder_def sOrder_def checkOrphanedClick_def
        checkPostponedClick_def checkLongPress_def flag_defs LOW_def HIGH_def)
  show ?thesis using st e1 e2 by simp
qed

text \<open>
  C2 as stated fails: the specification puts the click cleanup after the long-press and
  repeat-press detection, the source puts it before. When a postponed click is flushed in
  the pass in which a long press is detected, the source dispatches Clicked and then
  LongPressed; the order of the specification would dispatch them the other way round.
\<close>

theorem order_differs_from_spec:
  "confirmed cfgOrder 2000 LOW sOrder \<and> mLastButtonState sOrder \<noteq> kButtonStateUnknown \<and>
   emitted sOrder (checkState cfgOrder 2000 LOW sOrder) =
     [(kEventClicked, LOW), (kEventLongPressed, LOW)] \<and>
   emitted sOrder (checkState_spec_order cfgOrder 2000 LOW sOrder) =
     [(kEventLongPressed, LOW), (kEventClicked, LOW)]"
  by (simp add: confirmed_def emitted_def cfgOrder_def sOrder_def checkState_spec_order_def
      stage_defs check_defs flag_defs)

subsection \<open>The first sample and the first change\<close>

lemma changeEntry_appends:
  "appends s (changeEntry cfg now b s)
     {kEventHeartBeat, kEventClicked, kEventLongPressed, kEventRepeatPressed} (mLastButtonState s)"
proof -
  let ?h = "checkHeartBeat cfg now s"
  let ?g = "clearFlag kFlagDebouncing ?h"
  have "dispatched ?g = dispatched ?h" by simp
  then have g: "appends s ?g {kEventHeartBeat} (mLastButtonState s)"
    using checkHeartBeat_appends by (rule appends_right)
  have "appends ?g (beforeChange cfg now b ?g) {kEventClicked, kEventLongPressed, kEventRepeatPressed}
      (mLastButtonState ?g)"
    by (rule beforeChange_appends)
  then have "appends ?g (beforeChange cfg now b ?g) {kEventClicked, kEventLongPressed, kEventRepeatPressed}
      (mLastButtonState s)" by simp
  from appends_trans [OF g this]
  have "appends s (beforeChange cfg now b ?g)
     {kEventHeartBeat, kEventClicked, kEventLongPressed, kEventRepeatPressed} (mLastButtonState s)"
    by (rule appends_mono) auto
  moreover have "dispatched (changeEntry cfg now b s) = dispatched (beforeChange cfg now b ?g)"
    by (simp add: changeEntry_def)
  ultimately show ?thesis by (rule appends_right [rotated])
qed

lemma changeEntry_released [simp]:
  "getDefaultReleasedState (changeEntry cfg now b s) = getDefaultReleasedState s"
  by (rule getDefaultReleasedState_flag) (simp add: changeEntry_def beforeChange_flags stage_flags)

lemma changeEntry_level [simp]: "mLastButtonState (changeEntry cfg now b s) = b"
  by (simp add: changeEntry_def)

lemma checkState_change:
  assumes "confirmed cfg now b s" and "mLastButtonState s \<noteq> kButtonStateUnknown"
    and "b \<noteq> mLastButtonState s"
  shows "checkState cfg now b s =
           checkReleased cfg now b (checkPressed now b (changeEntry cfg now b s))"
  using assms by (simp add: checkState_cases checkChanged_def changeEntry_def)

lemma checkState_press:
  assumes "confirmed cfg now b s" and "mLastButtonState s \<noteq> kButtonStateUnknown"
    and "b \<noteq> mLastButtonState s" and "b \<noteq> getDefaultReleasedState s"
  shows "checkState cfg now b s =
           handleEvent kEventPressed
             (setFlag kFlagPressed ((changeEntry cfg now b s)\<lparr>mLastPressTime := now\<rparr>))"
  using assms(4)
  by (simp add: checkState_change [OF assms(1-3)] checkPressed_def checkReleased_def)

lemma checkState_release:
  assumes "confirmed cfg now b s" and "mLastButtonState s \<noteq> kButtonStateUnknown"
    and "b \<noteq> mLastButtonState s" and "b = getDefaultReleasedState s"
  shows "checkState cfg now b s = checkReleased cfg now b (changeEntry cfg now b s)"
proof -
  have "checkPressed now b (changeEntry cfg now b s) = changeEntry cfg now b s"
    using assms(4) by (simp add: checkPressed_def)
  then show ?thesis by (simp only: checkState_change [OF assms(1-3)])
qed

lemma checkState_unknown:
  assumes "mLastButtonState s = kButtonStateUnknown"
  shows "dispatched (checkState cfg now b s) = dispatched (checkHeartBeat cfg now s)"
    and "confirmed cfg now b s \<Longrightarrow> mLastButtonState (checkState cfg now b s) = to_uint16_t b"
    and "\<not> confirmed cfg now b s \<Longrightarrow> mLastButtonState (checkState cfg now b s) = kButtonStateUnknown"
  using assms by (simp_all add: checkState_cases checkDebounced_def Let_def)

lemma press_events:
  assumes "confirmed cfg now b s" and "mLastButtonState s \<noteq> kButtonStateUnknown"
    and "b \<noteq> mLastButtonState s" and "b \<noteq> getDefaultReleasedState s"
  shows "\<exists>pre. emitted s (checkState cfg now b s) = pre @ [(kEventPressed, b)] \<and>
           list_all (\<lambda>(e, l). e \<in> {kEventHeartBeat, kEventClicked, kEventLongPressed,
              kEventRepeatPressed}) pre"
proof -
  from changeEntry_appends [of s cfg now b] obtain pre where
    pre: "dispatched (changeEntry cfg now b s) = dispatched s @ pre"
      "list_all (\<lambda>(e, l). e \<in> {kEventHeartBeat, kEventClicked, kEventLongPressed,
          kEventRepeatPressed} \<and> l = mLastButtonState s) pre"
    unfolding appends_def by (elim exE conjE)
  have "dispatched (checkState cfg now b s) = dispatched s @ (pre @ [(kEventPressed, b)])"
    using pre(1) by (simp add: checkState_press [OF assms])
  then have "emitted s (checkState cfg now b s) = pre @ [(kEventPressed, b)]"
    by (rule emitted_append)
  moreover have "list_all (\<lambda>(e, l). e \<in> {kEventHeartBeat, kEventClicked, kEventLongPressed,
              kEventRepeatPressed}) pre"
    using pre(2) by (auto simp: list_all_iff)
  ultimately show ?thesis by (intro exI [of _ pre] conjI)
qed

lemma release_events:
  assumes "confirmed cfg now b s" and "mLastButtonState s \<noteq> kButtonStateUnknown"
    and "b \<noteq> mLastButtonState s" and "b = getDefaultReleasedState s"
  shows "\<exists>pre. emitted s (checkState cfg now b s) =
           pre @ (if releasedSuppressed cfg (clickEvaluated cfg now (changeEntry cfg now b s))
                  then (if isFlag (changeEntry cfg now b s) kFlagLongPressed
                        then [(kEventLongReleased, b)] else [])
                  else [(kEventReleased, b)]) \<and>
           list_all (\<lambda>(e, l). e \<in> {kEventHeartBeat, kEventClicked, kEventLongPressed,
              kEventRepeatPressed, kEventDoubleClicked}) pre"
proof -
  let ?p = "changeEntry cfg now b s"
  let ?tail = "if releasedSuppressed cfg (clickEvaluated cfg now ?p)
                  then (if isFlag ?p kFlagLongPressed then [(kEventLongReleased, b)] else [])
                  else [(kEventReleased, b)]"
  from changeEntry_appends [of s cfg now b] obtain e1 where
    e1: "dispatched ?p = dispatched s @ e1"
      "list_all (\<lambda>(e, l). e \<in> {kEventHeartBeat, kEventClicked, kEventLongPressed,
          kEventRepeatPressed} \<and> l = mLastButtonState s) e1"
    unfolding appends_def by (elim exE conjE)
  from clickEvaluated_appends [of ?p cfg now] obtain e2 where
    e2: "dispatched (clickEvaluated cfg now ?p) = dispatched ?p @ e2"
      "list_all (\<lambda>(e, l). e \<in> {kEventClicked, kEventDoubleClicked} \<and> l = mLastButtonState ?p) e2"
    unfolding appends_def by (elim exE conjE)
  have r: "b = getDefaultReleasedState ?p" using assms(4) by simp
  have "dispatched (checkReleased cfg now b ?p) = dispatched (clickEvaluated cfg now ?p) @ ?tail"
    using checkReleased_dispatched [OF r, of cfg now] by simp
  then have "dispatched (checkState cfg now b s) = dispatched s @ ((e1 @ e2) @ ?tail)"
    using e1(1) e2(1) by (simp only: checkState_release [OF assms]) simp
  then have "emitted s (checkState cfg now b s) = (e1 @ e2) @ ?tail"
    by (rule emitted_append)
  moreover have "list_all (\<lambda>(e, l). e \<in> {kEventHeartBeat, kEventClicked, kEventLongPressed,
              kEventRepeatPressed, kEventDoubleClicked}) (e1 @ e2)"
    using e1(2) e2(2) by (auto simp: list_all_iff)
  ultimately show ?thesis by (intro exI [of _ "e1 @ e2"] conjI)
qed

text \<open>
  C7, as amended. While \<open>mLastButtonState\<close> is the Unknown sentinel, \<open>checkInitialized\<close>
  records the level it is given and returns false, and a \<open>checkState\<close> dispatches nothing
  but the HeartBeat that the heartbeat check may have due; a confirmed sample leaves its
  level (\<open>LOW\<close> or \<open>HIGH\<close>) as the baseline. Once the button is initialised, a confirmed
  sample at another level stores that level and ends the events of the call with Pressed
  when the level is the pressed one; when it is the released one it ends them with
  Released, unless Released is suppressed, and then with LongReleased after a long press
  and with nothing otherwise. Before that, the call dispatches at most a HeartBeat, a
  flushed or fresh Clicked, a DoubleClicked, LongPressed and RepeatPressed.
\<close>

theorem first_sample_then_change:
  "(mLastButtonState s = kButtonStateUnknown \<longrightarrow>
      checkInitialized b s = (False, s\<lparr>mLastButtonState := b\<rparr>) \<and>
      emitted s (checkState cfg now b s) =
        (if heartBeatDue cfg now s then [(kEventHeartBeat, kButtonStateUnknown)] else []) \<and>
      mLastButtonState (checkState cfg now b s) =
        (if confirmed cfg now b s then to_uint16_t b else kButtonStateUnknown)) \<and>
   to_uint16_t LOW = LOW \<and> to_uint16_t HIGH = HIGH \<and>
   (mLastButtonState s \<noteq> kButtonStateUnknown \<and> confirmed cfg now b s \<and>
    b \<noteq> mLastButtonState s \<longrightarrow>
      mLastButtonState (checkState cfg now b s) = b \<and>
      (b \<noteq> getDefaultReleasedState s \<longrightarrow>
         (\<exists>pre. emitted s (checkState cfg now b s) = pre @ [(kEventPressed, b)] \<and>
            list_all (\<lambda>(e, l). e \<in> {kEventHeartBeat, kEventClicked, kEventLongPressed,
              kEventRepeatPressed}) pre)) \<and>
      (b = getDefaultReleasedState s \<longrightarrow>
         (\<exists>pre. emitted s (checkState cfg now b s) =
            pre @ (if releasedSuppressed cfg (clickEvaluated cfg now (changeEntry cfg now b s))
                   then (if isFlag (changeEntry cfg now b s) kFlagLongPressed
                         then [(kEventLongReleased, b)] else [])
                   else [(kEventReleased, b)]) \<and>
            list_all (\<lambda>(e, l). e \<in> {kEventHeartBeat, kEventClicked, kEventLongPressed,
              kEventRepeatPressed, kEventDoubleClicked}) pre)))"
proof (intro conjI impI)
  assume u: "mLastButtonState s = kButtonStateUnknown"
  show "checkInitialized b s = (False, s\<lparr>mLastButtonState := b\<rparr>)"
    using u by (simp add: checkInitialized_def)
  have "dispatched (checkState cfg now b s) = dispatched s @
      (if heartBeatDue cfg now s then [(kEventHeartBeat, kButtonStateUnknown)] else [])"
    using checkHeartBeat_dispatched [of cfg now s] by (simp only: checkState_unknown(1) [OF u] u)
  then show "emitted s (checkState cfg now b s) =
      (if heartBeatDue cfg now s then [(kEventHeartBeat, kButtonStateUnknown)] else [])"
    by (rule emitted_append)
  show "mLastButtonState (checkState cfg now b s) =
      (if confirmed cfg now b s then to_uint16_t b else kButtonStateUnknown)"
    using checkState_unknown(2,3) [OF u, of cfg now b] by (cases "confirmed cfg now b s") simp_all
next
  show "to_uint16_t LOW = LOW" "to_uint16_t HIGH = HIGH"
    by (simp_all add: to_uint16_t_def LOW_def HIGH_def)
next
  assume a: "mLastButtonState s \<noteq> kButtonStateUnknown \<and> confirmed cfg now b s \<and>
    b \<noteq> mLastButtonState s"
  then have h: "confirmed cfg now b s" "mLastButtonState s \<noteq> kButtonStateUnknown"
    "b \<noteq> mLastButtonState s" by simp_all
  show "mLastButtonState (checkState cfg now b s) = b"
    by (simp add: checkState_change [OF h] checkReleased_def Let_def checkPressed_def)
  show "\<exists>pre. emitted s (checkState cfg now b s) = pre @ [(kEventPressed, b)] \<and>
            list_all (\<lambda>(e, l). e \<in> {kEventHeartBeat, kEventClicked, kEventLongPressed,
              kEventRepeatPressed}) pre" if "b \<noteq> getDefaultReleasedState s"
    using that by (rule press_events [OF h])
  show "\<exists>pre. emitted s (checkState cfg now b s) =
            pre @ (if releasedSuppressed cfg (clickEvaluated cfg now (changeEntry cfg now b s))
                   then (if isFlag (changeEntry cfg now b s) kFlagLongPressed
                         then [(kEventLongReleased, b)] else [])
                   else [(kEventReleased, b)]) \<and>
            list_all (\<lambda>(e, l). e \<in> {kEventHeartBeat, kEventClicked, kEventLongPressed,
              kEventRepeatPressed, kEventDoubleClicked}) pre" if "b = getDefaultReleasedState s"
    using that by (rule release_events [OF h])
qed

lemmas init_defs = init_def setDefaultReleasedState_def sZero_def

theorem first_sample_then_change_witness:
  "mLastButtonState (checkState cfgW 0 HIGH (init 2 HIGH 0 sZero)) = kButtonStateUnknown \<and>
   confirmed cfgW 25 HIGH (checkState cfgW 0 HIGH (init 2 HIGH 0 sZero)) \<and>
   emitted (checkState cfgW 0 HIGH (init 2 HIGH 0 sZero))
     (checkStates cfgW [(0, HIGH), (25, HIGH)] (init 2 HIGH 0 sZero)) = [] \<and>
   mLastButtonState (checkStates cfgW [(0, HIGH), (25, HIGH)] (init 2 HIGH 0 sZero)) = HIGH \<and>
   confirmed cfgW 55 LOW (checkStates cfgW [(0, HIGH), (25, HIGH), (30, LOW)] (init 2 HIGH 0 sZero)) \<and>
   LOW \<noteq> getDefaultReleasedState
     (checkStates cfgW [(0, HIGH), (25, HIGH), (30, LOW)] (init 2 HIGH 0 sZero)) \<and>
   mLastButtonState (checkStates cfgW [(0, HIGH), (25, HIGH), (30, LOW)] (init 2 HIGH 0 sZero)) = HIGH \<and>
   (\<exists>pre. emitted (checkStates cfgW [(0, HIGH), (25, HIGH), (30, LOW)] (init 2 HIGH 0 sZero))
     (checkStates cfgW [(0, HIGH), (25, HIGH), (30, LOW), (55, LOW)] (init 2 HIGH 0 sZero)) =
     pre @ [(kEventPressed, LOW)]) \<and>
   emitted (checkStates cfgW [(0, HIGH), (25, HIGH), (30, LOW)] (init 2 HIGH 0 sZero))
     (checkStates cfgW [(0, HIGH), (25, HIGH), (30, LOW), (55, LOW)] (init 2 HIGH 0 sZero)) =
     [(kEventPressed, LOW)]"
proof -
  let ?s1 = "checkState cfgW 0 HIGH (init 2 HIGH 0 sZero)"
  have u: "mLastButtonState ?s1 = kButtonStateUnknown"
    by (simp add: init_defs cfgW_def check_defs flag_defs)
  have c: "confirmed cfgW 25 HIGH ?s1" "\<not> heartBeatDue cfgW 25 ?s1"
    by (simp_all add: confirmed_def heartBeatDue_def init_defs cfgW_def check_defs flag_defs)
  from first_sample_then_change [of ?s1 HIGH cfgW 25] u c
  have f: "emitted ?s1 (checkState cfgW 25 HIGH ?s1) = [] \<and>
      mLastButtonState (checkState cfgW 25 HIGH ?s1) = HIGH"
    by simp
  let ?s3 = "checkStates cfgW [(0, HIGH), (25, HIGH), (30, LOW)] (init 2 HIGH 0 sZero)"
  have p: "confirmed cfgW 55 LOW ?s3" "LOW \<noteq> getDefaultReleasedState ?s3"
    by (simp_all add: confirmed_def init_defs cfgW_def check_defs flag_defs)
  have e: "emitted ?s3 (checkState cfgW 55 LOW ?s3) = [(kEventPressed, LOW)]"
    by (simp add: emitted_def init_defs cfgW_def check_defs flag_defs)
  have l: "mLastButtonState ?s3 = HIGH" "mLastButtonState ?s3 \<noteq> kButtonStateUnknown"
    "LOW \<noteq> mLastButtonState ?s3"
    by (simp_all add: init_defs cfgW_def check_defs flag_defs)
  from first_sample_then_change [of ?s3 LOW cfgW 55] p l(2,3)
  have g: "\<exists>pre. emitted ?s3 (checkState cfgW 55 LOW ?s3) = pre @ [(kEventPressed, LOW)]"
    by blast
  show ?thesis using u c(1) f p l(1) g e by simp
qed

text \<open>
  C7 as stated fails twice. With the heartbeat enabled and due, the first confirmed sample
  dispatches a HeartBeat, at the Unknown level. And with Click and the suppression of
  Released after a click enabled, a button held at boot and released 120 ms after the
  clock's zero dispatches Clicked and no Released.
\<close>

theorem first_sample_counterexamples:
  "mLastButtonState (checkState cfgW 0 HIGH (init 2 HIGH 0 sZero)) = kButtonStateUnknown \<and>
   confirmed cfgW 5000 HIGH (checkState cfgW 0 HIGH (init 2 HIGH 0 sZero)) \<and>
   emitted (checkState cfgW 0 HIGH (init 2 HIGH 0 sZero))
     (checkStates cfgW [(0, HIGH), (5000, HIGH)] (init 2 HIGH 0 sZero)) =
     [(kEventHeartBeat, kButtonStateUnknown)] \<and>
   mLastButtonState (checkStates cfgSuppress [(0, LOW), (20, LOW), (100, HIGH)] (init 2 HIGH 0 sZero)) = LOW \<and>
   confirmed cfgSuppress 120 HIGH
     (checkStates cfgSuppress [(0, LOW), (20, LOW), (100, HIGH)] (init 2 HIGH 0 sZero)) \<and>
   emitted (init 2 HIGH 0 sZero)
     (checkStates cfgSuppress [(0, LOW), (20, LOW), (100, HIGH), (120, HIGH)] (init 2 HIGH 0 sZero)) =
     [(kEventClicked, HIGH)]"
  by (simp add: confirmed_def emitted_def init_defs cfgW_def cfgSuppress_def check_defs flag_defs)

subsection \<open>Elapsed time\<close>

text \<open>
  C8. Every elapsed time of the source is an \<^verbatim>\<open>int64_t\<close> difference compared with a signed
  \<open>\<ge>\<close>. When the clock has rolled over (here at 16 bits, as the comment in
  \<open>checkDebounced\<close> considers), the difference is negative and the debounce is not over,
  although 36 ms have passed, which the unsigned subtraction, at 16 or at 64 bits, would
  have accepted.
\<close>

theorem elapsed_time_is_signed:
  "checkDebounced cfgW 30 LOW sWrap = (False, sWrap) \<and>
   sint (30 - mLastDebounceTime sWrap) = - 65500 \<and>
   \<not> getDebounceDelay cfgW \<le>s 30 - mLastDebounceTime sWrap \<and>
   getDebounceDelay cfgW \<le> 30 - mLastDebounceTime sWrap \<and>
   unat (ucast (30 - mLastDebounceTime sWrap) :: 16 word) = 36"
  by (simp add: checkDebounced_def cfgW_def sWrap_def isFlag_def Let_def)

subsection \<open>Two clicks make one double click\<close>

lemma sint_diff:
  fixes a b :: int64_t
  assumes "0 \<le> sint a" and "0 \<le> sint b"
  shows "sint (b - a) = sint b - sint a"
proof -
  have "sint a < 2 ^ 63" "sint b < 2 ^ 63"
    using sint_lt [of a] sint_lt [of b] by simp_all
  with assms have "- (2 ^ 63) \<le> sint b - sint a" "sint b - sint a < 2 ^ 63" by simp_all
  then have "signed_take_bit 63 (sint b - sint a) = sint b - sint a"
    by (intro signed_take_bit_int_eq_self) simp_all
  then show ?thesis by (simp add: sint_word_diff)
qed

lemma within_window:
  fixes t0 t t1 d :: int64_t
  assumes "0 \<le> sint t0" and "sint t0 \<le> sint t" and "sint t \<le> sint t1"
    and "\<not> d \<le>s t1 - t0"
  shows "\<not> d \<le>s t - t0"
proof -
  have "0 \<le> sint t" "0 \<le> sint t1" using assms by simp_all
  then have "sint (t - t0) = sint t - sint t0" "sint (t1 - t0) = sint t1 - sint t0"
    using assms(1) by (simp_all add: sint_diff)
  then show ?thesis using assms(3,4) by (simp add: word_sle_eq)
qed

lemma clickIdle_view: "clickView s' = clickView s \<Longrightarrow> clickIdle cfg now s' = clickIdle cfg now s"
  by (simp add: clickIdle_def clickView_def)

lemma released_view: "frameView s' = frameView s \<Longrightarrow> getDefaultReleasedState s' = getDefaultReleasedState s"
  by (simp add: frameView_def getDefaultReleasedState_def)

lemma housekeeping_idle:
  "clickIdle cfg now s \<Longrightarrow> checkOrphanedClick cfg now (checkPostponedClick cfg now s) = s"
  by (auto simp: clickIdle_def checkOrphanedClick_def checkPostponedClick_def Let_def)

lemma clickCleanupStage_idle: "clickIdle cfg now s \<Longrightarrow> clickCleanupStage cfg now s = s"
  by (simp add: clickCleanupStage_def housekeeping_idle)

lemma frameView_simps [simp]:
  "frameView (checkHeartBeat cfg now s) = frameView s"
  "frameView (clearFlag kFlagDebouncing s) = frameView s"
  "frameView (snd (checkDebounced cfg now b s)) = frameView s"
  "frameView (longPressStage cfg now b s) = frameView s"
  "frameView (repeatPressStage cfg now b s) = frameView s"
  "frameView (s\<lparr>mLastButtonState := l\<rparr>) = frameView s"
  by (simp_all add: frameView_def clickView_def stage_flags checkHeartBeat_keeps
      longPressStage_def repeatPressStage_def checkDebounced_def Let_def)

lemma beforeChange_idle:
  assumes "clickIdle cfg now s"
  shows "beforeChange cfg now b s = repeatPressStage cfg now b (longPressStage cfg now b s)"
  by (simp add: beforeChange_stages clickCleanupStage_idle [OF assms])

lemma idle_gate:
  "clickIdle cfg now (clearFlag kFlagDebouncing (checkHeartBeat cfg now s)) = clickIdle cfg now s"
  by (rule clickIdle_view) (simp add: clickView_def stage_flags)

lemma changeEntry_idle:
  assumes "clickIdle cfg now s"
  shows "frameView (changeEntry cfg now b s) = frameView s"
    and "appends s (changeEntry cfg now b s)
           {kEventHeartBeat, kEventLongPressed, kEventRepeatPressed} (mLastButtonState s)"
proof -
  let ?h = "checkHeartBeat cfg now s"
  let ?g = "clearFlag kFlagDebouncing ?h"
  let ?l = "longPressStage cfg now b ?g"
  let ?r = "repeatPressStage cfg now b ?l"
  have i: "clickIdle cfg now ?g" using assms by (simp only: idle_gate)
  have ce: "changeEntry cfg now b s = ?r\<lparr>mLastButtonState := b\<rparr>"
    by (simp add: changeEntry_def beforeChange_idle [OF i])
  show "frameView (changeEntry cfg now b s) = frameView s" by (simp add: ce)
  have "dispatched ?g = dispatched ?h" by simp
  then have a0: "appends s ?g {kEventHeartBeat} (mLastButtonState s)"
    using checkHeartBeat_appends by (rule appends_right)
  have "appends ?g ?l {kEventLongPressed} (mLastButtonState ?g)" by (rule stages_appends(2))
  then have a1: "appends ?g ?l {kEventLongPressed} (mLastButtonState s)" by simp
  have "appends ?l ?r {kEventRepeatPressed} (mLastButtonState ?l)" by (rule stages_appends(3))
  then have a2: "appends ?l ?r {kEventRepeatPressed} (mLastButtonState s)" by simp
  from appends_trans [OF appends_trans [OF a0 a1] a2]
  have "appends s ?r {kEventHeartBeat, kEventLongPressed, kEventRepeatPressed} (mLastButtonState s)"
    by (rule appends_mono) auto
  moreover have "dispatched (changeEntry cfg now b s) = dispatched ?r" by (simp add: ce)
  ultimately show "appends s (changeEntry cfg now b s)
      {kEventHeartBeat, kEventLongPressed, kEventRepeatPressed} (mLastButtonState s)"
    by (rule appends_right [rotated])
qed

lemma level_changed:
  assumes "mLastButtonState s \<noteq> kButtonStateUnknown"
    and "mLastButtonState (checkState cfg now b s) \<noteq> mLastButtonState s"
  shows "confirmed cfg now b s \<and> b \<noteq> mLastButtonState s \<and> mLastButtonState (checkState cfg now b s) = b"
proof -
  have c: "confirmed cfg now b s"
  proof (rule ccontr)
    assume "\<not> confirmed cfg now b s"
    then have "mLastButtonState (checkState cfg now b s) = mLastButtonState s"
      by (simp add: checkState_cases checkDebounced_def Let_def)
    with assms(2) show False by simp
  qed
  have n: "b \<noteq> mLastButtonState s"
  proof
    assume e: "b = mLastButtonState s"
    have "checkState cfg now b s =
        beforeChange cfg now b (clearFlag kFlagDebouncing (checkHeartBeat cfg now s))"
      using c assms(1) e by (simp add: checkState_cases)
    then have "mLastButtonState (checkState cfg now b s) = mLastButtonState s" by simp
    with assms(2) show False by simp
  qed
  have "mLastButtonState (checkState cfg now b s) = b"
    using c assms(1) n by (simp add: checkState_cases)
  with c n show ?thesis by (intro conjI)
qed

lemma quiet_step:
  assumes ini: "mLastButtonState s \<noteq> kButtonStateUnknown"
    and same: "mLastButtonState (checkState cfg now b s) = mLastButtonState s"
    and idle: "clickIdle cfg now s"
  shows "frameView (checkState cfg now b s) = frameView s"
    and "appends s (checkState cfg now b s)
           {kEventHeartBeat, kEventLongPressed, kEventRepeatPressed} (mLastButtonState s)"
proof -
  let ?s' = "checkState cfg now b s"
  let ?h = "checkHeartBeat cfg now s"
  let ?g = "clearFlag kFlagDebouncing ?h"
  have "frameView ?s' = frameView s \<and>
      appends s ?s' {kEventHeartBeat, kEventLongPressed, kEventRepeatPressed} (mLastButtonState s)"
  proof (cases "confirmed cfg now b s")
    case False
    then have st: "?s' = snd (checkDebounced cfg now b ?h)" by (simp add: checkState_cases)
    have "dispatched ?s' = dispatched ?h" by (simp add: st)
    then have "appends s ?s' {kEventHeartBeat} (mLastButtonState s)"
      using checkHeartBeat_appends by (rule appends_right)
    then have "appends s ?s' {kEventHeartBeat, kEventLongPressed, kEventRepeatPressed} (mLastButtonState s)"
      by (rule appends_mono) auto
    moreover have "frameView ?s' = frameView s" by (simp add: st)
    ultimately show ?thesis by (intro conjI)
  next
    case True
    have e: "b = mLastButtonState s"
    proof (rule ccontr)
      assume "b \<noteq> mLastButtonState s"
      with True ini have "mLastButtonState ?s' = b" by (simp add: checkState_cases)
      with same \<open>b \<noteq> mLastButtonState s\<close> show False by simp
    qed
    have "?s' = beforeChange cfg now b ?g" using True ini e by (simp add: checkState_cases)
    then have st: "?s'\<lparr>mLastButtonState := b\<rparr> = changeEntry cfg now b s"
      by (simp add: changeEntry_def)
    have "frameView ?s' = frameView (?s'\<lparr>mLastButtonState := b\<rparr>)" by simp
    then have f: "frameView ?s' = frameView s"
      by (simp only: st changeEntry_idle(1) [OF idle])
    have "dispatched ?s' = dispatched (changeEntry cfg now b s)"
      using arg_cong [OF st, of dispatched] by simp
    then have "appends s ?s' {kEventHeartBeat, kEventLongPressed, kEventRepeatPressed} (mLastButtonState s)"
      using changeEntry_idle(2) [OF idle] by (rule appends_right)
    with f show ?thesis by (intro conjI)
  qed
  then show "frameView ?s' = frameView s"
    "appends s ?s' {kEventHeartBeat, kEventLongPressed, kEventRepeatPressed} (mLastButtonState s)"
    by simp_all
qed

lemma counted_refl: "counted s s 0 0"
  by (simp add: counted_def)

lemma counted_trans:
  assumes "counted s s1 c1 d1" and "counted s1 s2 c2 d2"
  shows "counted s s2 (c1 + c2) (d1 + d2)"
proof -
  from assms(1) obtain e1 where 1: "dispatched s1 = dispatched s @ e1"
    "count_list (map fst e1) kEventClicked = c1" "count_list (map fst e1) kEventDoubleClicked = d1"
    unfolding counted_def by (elim exE conjE)
  from assms(2) obtain e2 where 2: "dispatched s2 = dispatched s1 @ e2"
    "count_list (map fst e2) kEventClicked = c2" "count_list (map fst e2) kEventDoubleClicked = d2"
    unfolding counted_def by (elim exE conjE)
  have "dispatched s2 = dispatched s @ (e1 @ e2)" using 1(1) 2(1) by simp
  moreover have "count_list (map fst (e1 @ e2)) kEventClicked = c1 + c2"
    "count_list (map fst (e1 @ e2)) kEventDoubleClicked = d1 + d2"
    using 1(2,3) 2(2,3) by simp_all
  ultimately show ?thesis unfolding counted_def by (intro exI [of _ "e1 @ e2"] conjI)
qed

lemma count_list_absent: "k \<notin> set xs \<Longrightarrow> count_list xs k = 0"
  by (induction xs) auto

lemma appends_counted:
  assumes "appends s s' K L" and "kEventClicked \<notin> K" and "kEventDoubleClicked \<notin> K"
  shows "counted s s' 0 0"
proof -
  from assms(1) obtain evs where e: "dispatched s' = dispatched s @ evs"
    "list_all (\<lambda>(e, l). e \<in> K \<and> l = L) evs"
    unfolding appends_def by (elim exE conjE)
  have "set (map fst evs) \<subseteq> K" using e(2) by (auto simp: list_all_iff)
  then have "kEventClicked \<notin> set (map fst evs)" "kEventDoubleClicked \<notin> set (map fst evs)"
    using assms(2,3) by auto
  then have "count_list (map fst evs) kEventClicked = 0"
    "count_list (map fst evs) kEventDoubleClicked = 0"
    by (simp_all add: count_list_absent)
  with e(1) show ?thesis unfolding counted_def by (intro exI [of _ evs] conjI)
qed

lemma counted_right:
  "dispatched s2 = dispatched s1 \<Longrightarrow> counted s s1 c d \<Longrightarrow> counted s s2 c d"
  by (simp add: counted_def)

lemma counted_emitted:
  assumes "counted s s' c d"
  shows "count_list (map fst (emitted s s')) kEventClicked = c"
    and "count_list (map fst (emitted s s')) kEventDoubleClicked = d"
proof -
  from assms obtain evs where e: "dispatched s' = dispatched s @ evs"
    "count_list (map fst evs) kEventClicked = c" "count_list (map fst evs) kEventDoubleClicked = d"
    unfolding counted_def by (elim exE conjE)
  have "emitted s s' = evs" using e(1) by (rule emitted_append)
  with e(2,3) show "count_list (map fst (emitted s s')) kEventClicked = c"
    "count_list (map fst (emitted s s')) kEventDoubleClicked = d" by simp_all
qed

lemma quiet_kinds:
  "kEventClicked \<notin> {kEventHeartBeat, kEventLongPressed, kEventRepeatPressed}"
  "kEventDoubleClicked \<notin> {kEventHeartBeat, kEventLongPressed, kEventRepeatPressed}"
  by (simp_all add: event_defs)

lemma quiet_run:
  assumes "changes cfg qs s = []" and "mLastButtonState s \<noteq> kButtonStateUnknown"
    and "\<forall>(t, b) \<in> set qs. clickIdle cfg t s"
  shows "frameView (checkStates cfg qs s) = frameView s \<and>
         mLastButtonState (checkStates cfg qs s) = mLastButtonState s \<and>
         counted s (checkStates cfg qs s) 0 0"
  using assms
proof (induction qs arbitrary: s)
  case Nil
  then show ?case by (simp add: counted_refl)
next
  case (Cons p qs)
  obtain t b where p: "p = (t, b)" by (cases p)
  let ?s1 = "checkState cfg t b s"
  from Cons.prems(1) have same: "mLastButtonState ?s1 = mLastButtonState s"
    and rest: "changes cfg qs ?s1 = []"
    by (simp_all add: p split: if_splits)
  from Cons.prems(3) have idle: "clickIdle cfg t s" by (simp add: p)
  note q = quiet_step [OF Cons.prems(2) same idle]
  have cv: "clickView ?s1 = clickView s" using q(1) by (simp add: frameView_def)
  have ini1: "mLastButtonState ?s1 \<noteq> kButtonStateUnknown" using same Cons.prems(2) by simp
  have idle1: "\<forall>(t, b) \<in> set qs. clickIdle cfg t ?s1"
    using Cons.prems(3) by (simp add: clickIdle_view [OF cv])
  note IH = Cons.IH [OF rest ini1 idle1]
  have c1: "counted s ?s1 0 0" using q(2) quiet_kinds by (rule appends_counted)
  from IH have c2: "counted ?s1 (checkStates cfg qs ?s1) 0 0" by simp
  from counted_trans [OF c1 c2] have "counted s (checkStates cfg (p # qs) s) 0 0"
    by (simp add: p)
  moreover have "frameView (checkStates cfg (p # qs) s) = frameView s"
    using IH q(1) by (simp add: p)
  moreover have "mLastButtonState (checkStates cfg (p # qs) s) = mLastButtonState s"
    using IH same by (simp add: p)
  ultimately show ?case by (intro conjI)
qed

lemma changes_split:
  assumes "changes cfg ps s = c # cs"
  shows "\<exists>qs now b rest. ps = qs @ (now, b) # rest \<and> changes cfg qs s = [] \<and>
           mLastButtonState (checkState cfg now b (checkStates cfg qs s)) \<noteq>
             mLastButtonState (checkStates cfg qs s) \<and>
           c = (now, mLastButtonState (checkState cfg now b (checkStates cfg qs s))) \<and>
           changes cfg rest (checkState cfg now b (checkStates cfg qs s)) = cs"
  using assms
proof (induction ps arbitrary: s)
  case Nil
  then show ?case by simp
next
  case (Cons p ps)
  obtain t b where p: "p = (t, b)" by (cases p)
  let ?s1 = "checkState cfg t b s"
  show ?case
  proof (cases "mLastButtonState ?s1 \<noteq> mLastButtonState s")
    case True
    with Cons.prems have "c = (t, mLastButtonState ?s1)" "changes cfg ps ?s1 = cs"
      by (simp_all add: p)
    with True show ?thesis
      by (intro exI [of _ "[]"] exI [of _ t] exI [of _ b] exI [of _ ps]) (simp add: p)
  next
    case False
    with Cons.prems have "changes cfg ps ?s1 = c # cs" by (simp add: p)
    from Cons.IH [OF this] obtain qs now b' rest where
      r: "ps = qs @ (now, b') # rest" "changes cfg qs ?s1 = []"
         "mLastButtonState (checkState cfg now b' (checkStates cfg qs ?s1)) \<noteq>
             mLastButtonState (checkStates cfg qs ?s1)"
         "c = (now, mLastButtonState (checkState cfg now b' (checkStates cfg qs ?s1)))"
         "changes cfg rest (checkState cfg now b' (checkStates cfg qs ?s1)) = cs"
      by (elim exE conjE)
    show ?thesis
      using r False
      by (intro exI [of _ "(t, b) # qs"] exI [of _ now] exI [of _ b'] exI [of _ rest])
         (simp add: p)
  qed
qed

lemma checkStates_append:
  "checkStates cfg (xs @ ys) s = checkStates cfg ys (checkStates cfg xs s)"
  by (induction xs arbitrary: s) auto

lemma press_step:
  assumes ini: "mLastButtonState s \<noteq> kButtonStateUnknown" and conf: "confirmed cfg now b s"
    and ne: "b \<noteq> mLastButtonState s" and pr: "b \<noteq> getDefaultReleasedState s"
    and idle: "clickIdle cfg now s"
  shows "clickView (checkState cfg now b s) = clickView s"
    and "mLastPressTime (checkState cfg now b s) = now"
    and "isFlag (checkState cfg now b s) kFlagDefaultReleasedState = isFlag s kFlagDefaultReleasedState"
    and "counted s (checkState cfg now b s) 0 0"
proof -
  let ?p = "changeEntry cfg now b s"
  let ?s' = "checkState cfg now b s"
  have st: "?s' = handleEvent kEventPressed (setFlag kFlagPressed (?p\<lparr>mLastPressTime := now\<rparr>))"
    by (rule checkState_press [OF conf ini ne pr])
  note f = changeEntry_idle [OF idle, of b]
  from f(1) have fv: "clickView ?p = clickView s"
    "isFlag ?p kFlagDefaultReleasedState = isFlag s kFlagDefaultReleasedState"
    by (simp_all add: frameView_def)
  show "clickView ?s' = clickView s"
    using fv(1) by (simp add: st clickView_def)
  show "mLastPressTime ?s' = now" by (simp add: st)
  show "isFlag ?s' kFlagDefaultReleasedState = isFlag s kFlagDefaultReleasedState"
    using fv(2) by (simp add: st)
  have c1: "counted s ?p 0 0" using f(2) quiet_kinds by (rule appends_counted)
  have "dispatched ?s' = dispatched ?p @ [(kEventPressed, b)]" by (simp add: st)
  then have c2: "counted ?p ?s' 0 0"
    unfolding counted_def by (intro exI [of _ "[(kEventPressed, b)]"]) (simp add: event_defs)
  from counted_trans [OF c1 c2] show "counted s ?s' 0 0" by simp
qed

lemma checkClicked_single:
  assumes "isFeature cfg kFeatureDoubleClick" and "isFeature cfg kFeatureSuppressClickBeforeDoubleClick"
    and "\<not> isFlag p kFlagClicked" and "\<not> getClickDelay cfg \<le>s now - mLastPressTime p"
  shows "dispatched (checkClicked cfg now p) = dispatched p"
    and "isFlag (checkClicked cfg now p) kFlagClicked"
    and "isFlag (checkClicked cfg now p) kFlagClickPostponed"
    and "mLastClickTime (checkClicked cfg now p) = now"
  using assms by (simp_all add: checkClicked_def checkDoubleClicked_def Let_def)

lemma checkClicked_double:
  assumes "isFeature cfg kFeatureDoubleClick"
    and "isFlag p kFlagClicked" and "\<not> getClickDelay cfg \<le>s now - mLastPressTime p"
    and "\<not> getDoubleClickDelay cfg \<le>s now - mLastClickTime p"
  shows "dispatched (checkClicked cfg now p) = dispatched p @ [(kEventDoubleClicked, mLastButtonState p)]"
    and "\<not> isFlag (checkClicked cfg now p) kFlagClicked"
    and "\<not> isFlag (checkClicked cfg now p) kFlagClickPostponed"
  using assms by (simp_all add: checkClicked_def checkDoubleClicked_def Let_def)

lemma release_tail_counted:
  assumes "b = getDefaultReleasedState p"
  shows "counted (clickEvaluated cfg now p) (checkReleased cfg now b p) 0 0"
proof -
  let ?tail = "if releasedSuppressed cfg (clickEvaluated cfg now p)
            then (if isFlag p kFlagLongPressed then [(kEventLongReleased, mLastButtonState p)] else [])
            else [(kEventReleased, mLastButtonState p)]"
  have "dispatched (checkReleased cfg now b p) = dispatched (clickEvaluated cfg now p) @ ?tail"
    by (rule checkReleased_dispatched [OF assms])
  moreover have "count_list (map fst ?tail) kEventClicked = 0"
    "count_list (map fst ?tail) kEventDoubleClicked = 0"
    by (simp_all add: event_defs)
  ultimately show ?thesis unfolding counted_def by (intro exI [of _ ?tail] conjI)
qed

lemma release_step_single:
  assumes ini: "mLastButtonState s \<noteq> kButtonStateUnknown" and conf: "confirmed cfg now b s"
    and ne: "b \<noteq> mLastButtonState s" and rl: "b = getDefaultReleasedState s"
    and idle: "clickIdle cfg now s"
    and f1: "isFeature cfg kFeatureDoubleClick"
    and f2: "isFeature cfg kFeatureSuppressClickBeforeDoubleClick"
    and nc: "\<not> isFlag s kFlagClicked"
    and quick: "\<not> getClickDelay cfg \<le>s now - mLastPressTime s"
  shows "clickView (checkState cfg now b s) = (True, True, now)"
    and "isFlag (checkState cfg now b s) kFlagDefaultReleasedState = isFlag s kFlagDefaultReleasedState"
    and "counted s (checkState cfg now b s) 0 0"
proof -
  let ?p = "changeEntry cfg now b s"
  let ?c = "checkClicked cfg now ?p"
  let ?s' = "checkState cfg now b s"
  have st: "?s' = checkReleased cfg now b ?p" by (rule checkState_release [OF conf ini ne rl])
  note f = changeEntry_idle [OF idle, of b]
  from f(1) have fv: "isFlag ?p kFlagClicked = isFlag s kFlagClicked"
    "mLastPressTime ?p = mLastPressTime s"
    "isFlag ?p kFlagDefaultReleasedState = isFlag s kFlagDefaultReleasedState"
    by (simp_all add: frameView_def clickView_def)
  have r: "b = getDefaultReleasedState ?p" using rl by simp
  have ce: "clickEvaluated cfg now ?p = ?c" using f1 by (simp add: clickEvaluated_def)
  have nc': "\<not> isFlag ?p kFlagClicked" using nc by (simp add: fv(1))
  have quick': "\<not> getClickDelay cfg \<le>s now - mLastPressTime ?p" using quick by (simp add: fv(2))
  note k = checkClicked_single [OF f1 f2 nc' quick']
  show "clickView ?s' = (True, True, now)"
    using k(2,3,4)
    by (simp add: st clickView_def checkReleased_flags [OF r] checkReleased_click_time [OF r] ce)
  show "isFlag ?s' kFlagDefaultReleasedState = isFlag s kFlagDefaultReleasedState"
    using fv(3) by (simp add: st checkReleased_flags [OF r] ce checkClicked_flags)
  have c1: "counted s ?p 0 0" using f(2) quiet_kinds by (rule appends_counted)
  have c2: "counted s ?c 0 0" using k(1) c1 by (rule counted_right)
  have c3: "counted ?c (checkReleased cfg now b ?p) 0 0"
    using release_tail_counted [OF r, of cfg now] by (simp only: ce)
  from counted_trans [OF c2 c3] show "counted s ?s' 0 0" by (simp add: st)
qed

lemma release_step_double:
  assumes ini: "mLastButtonState s \<noteq> kButtonStateUnknown" and conf: "confirmed cfg now b s"
    and ne: "b \<noteq> mLastButtonState s" and rl: "b = getDefaultReleasedState s"
    and f1: "isFeature cfg kFeatureDoubleClick"
    and cl: "isFlag s kFlagClicked"
    and quick: "\<not> getClickDelay cfg \<le>s now - mLastPressTime s"
    and win: "\<not> getDoubleClickDelay cfg \<le>s now - mLastClickTime s"
  shows "\<not> isFlag (checkState cfg now b s) kFlagClicked"
    and "\<not> isFlag (checkState cfg now b s) kFlagClickPostponed"
    and "isFlag (checkState cfg now b s) kFlagDefaultReleasedState = isFlag s kFlagDefaultReleasedState"
    and "counted s (checkState cfg now b s) 0 1"
proof -
  let ?p = "changeEntry cfg now b s"
  let ?c = "checkClicked cfg now ?p"
  let ?s' = "checkState cfg now b s"
  have idle: "clickIdle cfg now s" using win by (simp add: clickIdle_def)
  have st: "?s' = checkReleased cfg now b ?p" by (rule checkState_release [OF conf ini ne rl])
  note f = changeEntry_idle [OF idle, of b]
  from f(1) have fv: "isFlag ?p kFlagClicked = isFlag s kFlagClicked"
    "mLastPressTime ?p = mLastPressTime s" "mLastClickTime ?p = mLastClickTime s"
    "isFlag ?p kFlagDefaultReleasedState = isFlag s kFlagDefaultReleasedState"
    by (simp_all add: frameView_def clickView_def)
  have r: "b = getDefaultReleasedState ?p" using rl by simp
  have ce: "clickEvaluated cfg now ?p = ?c" using f1 by (simp add: clickEvaluated_def)
  have cl': "isFlag ?p kFlagClicked" using cl by (simp add: fv(1))
  have quick': "\<not> getClickDelay cfg \<le>s now - mLastPressTime ?p" using quick by (simp add: fv(2))
  have win': "\<not> getDoubleClickDelay cfg \<le>s now - mLastClickTime ?p" using win by (simp add: fv(3))
  note k = checkClicked_double [OF f1 cl' quick' win']
  show "\<not> isFlag ?s' kFlagClicked" "\<not> isFlag ?s' kFlagClickPostponed"
    using k(2,3) by (simp_all add: st checkReleased_flags [OF r] ce)
  show "isFlag ?s' kFlagDefaultReleasedState = isFlag s kFlagDefaultReleasedState"
    using fv(4) by (simp add: st checkReleased_flags [OF r] ce checkClicked_flags)
  have c1: "counted s ?p 0 0" using f(2) quiet_kinds by (rule appends_counted)
  have c2: "counted ?p ?c 0 1"
    unfolding counted_def using k(1)
    by (intro exI [of _ "[(kEventDoubleClicked, mLastButtonState ?p)]"]) (simp add: event_defs)
  have c3: "counted ?c (checkReleased cfg now b ?p) 0 0"
    using release_tail_counted [OF r, of cfg now] by (simp only: ce)
  from counted_trans [OF counted_trans [OF c1 c2] c3] show "counted s ?s' 0 1" by (simp add: st)
qed

lemma released_not_unknown: "getDefaultReleasedState s \<noteq> kButtonStateUnknown"
  by (simp add: getDefaultReleasedState_def HIGH_def LOW_def kButtonStateUnknown_def)

lemma idle_clear:
  "\<not> isFlag s kFlagClicked \<Longrightarrow> \<not> isFlag s kFlagClickPostponed \<Longrightarrow> clickIdle cfg t s"
  by (simp add: clickIdle_def)

lemma idle_window:
  assumes "mLastClickTime s = t0" and "0 \<le> sint t0" and "sint t0 \<le> sint t" and "sint t \<le> sint t1"
    and "\<not> getDoubleClickDelay cfg \<le>s t1 - t0"
  shows "clickIdle cfg t s"
  using within_window [OF assms(2-5)] by (simp add: clickIdle_def assms(1))

lemma sorted_split:
  assumes "sorted (map (sint \<circ> fst) (xs @ (t, b) # ys))"
  shows "\<forall>(u, c) \<in> set xs. sint u \<le> sint t"
    and "\<forall>(u, c) \<in> set ys. sint t \<le> sint u"
    and "sorted (map (sint \<circ> fst) ys)"
  using assms by (auto simp: sorted_append)

text \<open>
  C4. Click, DoubleClick and the postponement are enabled. The button rests at its released
  level with no click pending. Over a run of samples with non-negative, non-decreasing
  timestamps the confirmed level changes four times: pressed at \<open>tp1\<close>, released at
  \<open>tr1\<close>, pressed at \<open>tp2\<close>, released at \<open>tr2\<close>. Each release comes within the click
  delay of its press, and the second release within the double-click delay of the first.
  Then the run dispatches exactly one DoubleClicked and no Clicked, whatever else it
  dispatches and however the samples (bounces, idle polls, later polls) are spread, and it
  ends with ClickPostponed clear.
\<close>

theorem double_click_supersedes_click:
  assumes feat: "isFeature cfg kFeatureClick" "isFeature cfg kFeatureDoubleClick"
      "isFeature cfg kFeatureSuppressClickBeforeDoubleClick"
    and rest0: "mLastButtonState s = getDefaultReleasedState s"
      "\<not> isFlag s kFlagClicked" "\<not> isFlag s kFlagClickPostponed"
    and pl: "pl \<noteq> getDefaultReleasedState s" "pl \<noteq> kButtonStateUnknown"
    and nonneg: "\<forall>(t, b) \<in> set ps. 0 \<le> sint t"
    and mono: "sorted (map (sint \<circ> fst) ps)"
    and cyc: "changes cfg ps s =
      [(tp1, pl), (tr1, getDefaultReleasedState s), (tp2, pl), (tr2, getDefaultReleasedState s)]"
    and quick: "\<not> getClickDelay cfg \<le>s tr1 - tp1" "\<not> getClickDelay cfg \<le>s tr2 - tp2"
    and win: "\<not> getDoubleClickDelay cfg \<le>s tr2 - tr1"
  shows "count_list (map fst (emitted s (checkStates cfg ps s))) kEventDoubleClicked = 1 \<and>
         count_list (map fst (emitted s (checkStates cfg ps s))) kEventClicked = 0 \<and>
         \<not> isFlag (checkStates cfg ps s) kFlagClickPostponed"
proof -
  let ?r = "getDefaultReleasedState s"
  \<comment> \<open>the four changes split the run into five quiet stretches\<close>
  from changes_split [OF cyc] obtain q0 b1 ps1 where
    d1: "ps = q0 @ (tp1, b1) # ps1" and z0: "changes cfg q0 s = []"
    and n1: "mLastButtonState (checkState cfg tp1 b1 (checkStates cfg q0 s)) \<noteq>
        mLastButtonState (checkStates cfg q0 s)"
    and l1: "mLastButtonState (checkState cfg tp1 b1 (checkStates cfg q0 s)) = pl"
    and c1: "changes cfg ps1 (checkState cfg tp1 b1 (checkStates cfg q0 s)) =
        [(tr1, ?r), (tp2, pl), (tr2, ?r)]"
    by (elim exE conjE) simp
  let ?a0 = "checkStates cfg q0 s"
  let ?s1 = "checkState cfg tp1 b1 ?a0"
  from changes_split [OF c1] obtain q1 b2 ps2 where
    d2: "ps1 = q1 @ (tr1, b2) # ps2" and z1: "changes cfg q1 ?s1 = []"
    and n2: "mLastButtonState (checkState cfg tr1 b2 (checkStates cfg q1 ?s1)) \<noteq>
        mLastButtonState (checkStates cfg q1 ?s1)"
    and l2: "mLastButtonState (checkState cfg tr1 b2 (checkStates cfg q1 ?s1)) = ?r"
    and c2: "changes cfg ps2 (checkState cfg tr1 b2 (checkStates cfg q1 ?s1)) =
        [(tp2, pl), (tr2, ?r)]"
    by (elim exE conjE) simp
  let ?a1 = "checkStates cfg q1 ?s1"
  let ?s2 = "checkState cfg tr1 b2 ?a1"
  from changes_split [OF c2] obtain q2 b3 ps3 where
    d3: "ps2 = q2 @ (tp2, b3) # ps3" and z2: "changes cfg q2 ?s2 = []"
    and n3: "mLastButtonState (checkState cfg tp2 b3 (checkStates cfg q2 ?s2)) \<noteq>
        mLastButtonState (checkStates cfg q2 ?s2)"
    and l3: "mLastButtonState (checkState cfg tp2 b3 (checkStates cfg q2 ?s2)) = pl"
    and c3: "changes cfg ps3 (checkState cfg tp2 b3 (checkStates cfg q2 ?s2)) = [(tr2, ?r)]"
    by (elim exE conjE) simp
  let ?a2 = "checkStates cfg q2 ?s2"
  let ?s3 = "checkState cfg tp2 b3 ?a2"
  from changes_split [OF c3] obtain q3 b4 q4 where
    d4: "ps3 = q3 @ (tr2, b4) # q4" and z3: "changes cfg q3 ?s3 = []"
    and n4: "mLastButtonState (checkState cfg tr2 b4 (checkStates cfg q3 ?s3)) \<noteq>
        mLastButtonState (checkStates cfg q3 ?s3)"
    and l4: "mLastButtonState (checkState cfg tr2 b4 (checkStates cfg q3 ?s3)) = ?r"
    and z4: "changes cfg q4 (checkState cfg tr2 b4 (checkStates cfg q3 ?s3)) = []"
    by (elim exE conjE) simp
  let ?a3 = "checkStates cfg q3 ?s3"
  let ?s4 = "checkState cfg tr2 b4 ?a3"
  let ?s5 = "checkStates cfg q4 ?s4"
  have run: "checkStates cfg ps s = ?s5"
    by (simp add: d1 d2 d3 d4 checkStates_append)
  \<comment> \<open>the order of the timestamps\<close>
  have ps: "ps = q0 @ (tp1, b1) # q1 @ (tr1, b2) # q2 @ (tp2, b3) # q3 @ (tr2, b4) # q4"
    by (simp add: d1 d2 d3 d4)
  have pos: "0 \<le> sint tr1" using nonneg by (simp add: ps)
  have "sorted (map (sint \<circ> fst) (q0 @ (tp1, b1) # ps1))" using mono by (simp only: d1)
  note k1 = sorted_split [OF this]
  have "sorted (map (sint \<circ> fst) (q1 @ (tr1, b2) # ps2))" using k1(3) by (simp only: d2)
  note k2 = sorted_split [OF this]
  have "sorted (map (sint \<circ> fst) (q2 @ (tp2, b3) # ps3))" using k2(3) by (simp only: d3)
  note k3 = sorted_split [OF this]
  have "sorted (map (sint \<circ> fst) (q3 @ (tr2, b4) # q4))" using k3(3) by (simp only: d4)
  note k4 = sorted_split [OF this]
  have o1: "sint tr1 \<le> sint tp2" "sint tp2 \<le> sint tr2"
    using k2(2) k3(2) by (simp_all add: d3 d4)
  have o2: "\<forall>(t, b) \<in> set q2. sint tr1 \<le> sint t \<and> sint t \<le> sint tr2"
  proof (clarify, intro conjI)
    fix t b assume m: "(t, b) \<in> set q2"
    then have "(t, b) \<in> set ps2" by (simp add: d3)
    with k2(2) show "sint tr1 \<le> sint t" by blast
    from k3(1) m have "sint t \<le> sint tp2" by blast
    with o1(2) show "sint t \<le> sint tr2" by simp
  qed
  have o3: "\<forall>(t, b) \<in> set q3. sint tr1 \<le> sint t \<and> sint t \<le> sint tr2"
  proof (clarify, intro conjI)
    fix t b assume m: "(t, b) \<in> set q3"
    then have "(t, b) \<in> set ps3" by (simp add: d4)
    with k3(2) have "sint tp2 \<le> sint t" by blast
    with o1(1) show "sint tr1 \<le> sint t" by simp
    from k4(1) m show "sint t \<le> sint tr2" by blast
  qed
  \<comment> \<open>before the first press\<close>
  have i0: "mLastButtonState s \<noteq> kButtonStateUnknown"
    by (simp add: rest0(1) released_not_unknown)
  have "\<forall>(t, b) \<in> set q0. clickIdle cfg t s" by (simp add: idle_clear [OF rest0(2,3)])
  from quiet_run [OF z0 i0 this]
  have a0: "frameView ?a0 = frameView s" "mLastButtonState ?a0 = mLastButtonState s"
    "counted s ?a0 0 0" by simp_all
  have a0c: "\<not> isFlag ?a0 kFlagClicked" "\<not> isFlag ?a0 kFlagClickPostponed"
    using a0(1) rest0(2,3) by (simp_all add: frameView_def clickView_def)
  have a0r: "getDefaultReleasedState ?a0 = ?r" using a0(1) by (rule released_view)
  have a0i: "mLastButtonState ?a0 \<noteq> kButtonStateUnknown" using i0 by (simp add: a0(2))
  from level_changed [OF a0i n1] have g1: "confirmed cfg tp1 b1 ?a0" "b1 \<noteq> mLastButtonState ?a0"
    "mLastButtonState ?s1 = b1" by simp_all
  have b1: "b1 = pl" using g1(3) l1 by simp
  have b1r: "b1 \<noteq> getDefaultReleasedState ?a0" using pl(1) by (simp only: b1 a0r) simp
  note p1 = press_step [OF a0i g1(1,2) b1r idle_clear [OF a0c]]
  \<comment> \<open>the first hold\<close>
  have s1c: "\<not> isFlag ?s1 kFlagClicked" "\<not> isFlag ?s1 kFlagClickPostponed"
    using p1(1) a0c by (simp_all add: clickView_def)
  have s1i: "mLastButtonState ?s1 \<noteq> kButtonStateUnknown" using pl(2) by (simp only: l1) simp
  have s1r: "getDefaultReleasedState ?s1 = ?r"
    using p1(3) a0r by (simp add: getDefaultReleasedState_def)
  have "\<forall>(t, b) \<in> set q1. clickIdle cfg t ?s1" by (simp add: idle_clear [OF s1c])
  from quiet_run [OF z1 s1i this]
  have a1: "frameView ?a1 = frameView ?s1" "mLastButtonState ?a1 = mLastButtonState ?s1"
    "counted ?s1 ?a1 0 0" by simp_all
  have a1c: "\<not> isFlag ?a1 kFlagClicked" "\<not> isFlag ?a1 kFlagClickPostponed"
    using a1(1) s1c by (simp_all add: frameView_def clickView_def)
  have a1p: "mLastPressTime ?a1 = tp1" using a1(1) p1(2) by (simp add: frameView_def)
  have a1r: "getDefaultReleasedState ?a1 = ?r" using released_view [OF a1(1)] s1r by simp
  have a1i: "mLastButtonState ?a1 \<noteq> kButtonStateUnknown" using s1i by (simp add: a1(2))
  from level_changed [OF a1i n2] have g2: "confirmed cfg tr1 b2 ?a1" "b2 \<noteq> mLastButtonState ?a1"
    "mLastButtonState ?s2 = b2" by simp_all
  have b2: "b2 = getDefaultReleasedState ?a1" using g2(3) l2 a1r by simp
  have q1': "\<not> getClickDelay cfg \<le>s tr1 - mLastPressTime ?a1" using quick(1) by (simp only: a1p) simp
  note r1 = release_step_single [OF a1i g2(1,2) b2 idle_clear [OF a1c] feat(2,3) a1c(1) q1']
  \<comment> \<open>between the two clicks\<close>
  have s2v: "isFlag ?s2 kFlagClicked" "isFlag ?s2 kFlagClickPostponed" "mLastClickTime ?s2 = tr1"
    using r1(1) by (simp_all add: clickView_def)
  have s2i: "mLastButtonState ?s2 \<noteq> kButtonStateUnknown"
    by (simp only: l2) (rule released_not_unknown)
  have s2r: "getDefaultReleasedState ?s2 = ?r"
    using r1(2) a1r by (simp add: getDefaultReleasedState_def)
  have "\<forall>(t, b) \<in> set q2. clickIdle cfg t ?s2"
    using o2 by (auto intro: idle_window [OF s2v(3) pos _ _ win])
  from quiet_run [OF z2 s2i this]
  have a2: "frameView ?a2 = frameView ?s2" "mLastButtonState ?a2 = mLastButtonState ?s2"
    "counted ?s2 ?a2 0 0" by simp_all
  have a2v: "isFlag ?a2 kFlagClicked" "isFlag ?a2 kFlagClickPostponed" "mLastClickTime ?a2 = tr1"
    using a2(1) s2v by (simp_all add: frameView_def clickView_def)
  have a2r: "getDefaultReleasedState ?a2 = ?r" using released_view [OF a2(1)] s2r by simp
  have a2i: "mLastButtonState ?a2 \<noteq> kButtonStateUnknown" using s2i by (simp add: a2(2))
  from level_changed [OF a2i n3] have g3: "confirmed cfg tp2 b3 ?a2" "b3 \<noteq> mLastButtonState ?a2"
    "mLastButtonState ?s3 = b3" by simp_all
  have b3: "b3 = pl" using g3(3) l3 by simp
  have b3r: "b3 \<noteq> getDefaultReleasedState ?a2" using pl(1) by (simp only: b3 a2r) simp
  have i3: "clickIdle cfg tp2 ?a2" by (rule idle_window [OF a2v(3) pos o1 win])
  note p2 = press_step [OF a2i g3(1,2) b3r i3]
  \<comment> \<open>the second hold\<close>
  have s3v: "isFlag ?s3 kFlagClicked" "isFlag ?s3 kFlagClickPostponed" "mLastClickTime ?s3 = tr1"
    using p2(1) a2v by (simp_all add: clickView_def)
  have s3i: "mLastButtonState ?s3 \<noteq> kButtonStateUnknown" using pl(2) by (simp only: l3) simp
  have s3r: "getDefaultReleasedState ?s3 = ?r"
    using p2(3) a2r by (simp add: getDefaultReleasedState_def)
  have "\<forall>(t, b) \<in> set q3. clickIdle cfg t ?s3"
    using o3 by (auto intro: idle_window [OF s3v(3) pos _ _ win])
  from quiet_run [OF z3 s3i this]
  have a3: "frameView ?a3 = frameView ?s3" "mLastButtonState ?a3 = mLastButtonState ?s3"
    "counted ?s3 ?a3 0 0" by simp_all
  have a3v: "isFlag ?a3 kFlagClicked" "mLastClickTime ?a3 = tr1" "mLastPressTime ?a3 = tp2"
    using a3(1) s3v p2(2) by (simp_all add: frameView_def clickView_def)
  have a3r: "getDefaultReleasedState ?a3 = ?r" using released_view [OF a3(1)] s3r by simp
  have a3i: "mLastButtonState ?a3 \<noteq> kButtonStateUnknown" using s3i by (simp add: a3(2))
  from level_changed [OF a3i n4] have g4: "confirmed cfg tr2 b4 ?a3" "b4 \<noteq> mLastButtonState ?a3"
    "mLastButtonState ?s4 = b4" by simp_all
  have b4: "b4 = getDefaultReleasedState ?a3" using g4(3) l4 a3r by simp
  have q2': "\<not> getClickDelay cfg \<le>s tr2 - mLastPressTime ?a3" using quick(2) by (simp only: a3v(3)) simp
  have w2': "\<not> getDoubleClickDelay cfg \<le>s tr2 - mLastClickTime ?a3" using win by (simp only: a3v(2)) simp
  note r2 = release_step_double [OF a3i g4(1,2) b4 feat(2) a3v(1) q2' w2']
  \<comment> \<open>after the double click\<close>
  have s4i: "mLastButtonState ?s4 \<noteq> kButtonStateUnknown"
    by (simp only: l4) (rule released_not_unknown)
  have "\<forall>(t, b) \<in> set q4. clickIdle cfg t ?s4" by (simp add: idle_clear [OF r2(1,2)])
  from quiet_run [OF z4 s4i this]
  have a4: "frameView ?s5 = frameView ?s4" "counted ?s4 ?s5 0 0" by simp_all
  have fin: "\<not> isFlag ?s5 kFlagClickPostponed"
    using a4(1) r2(2) by (simp add: frameView_def clickView_def)
  \<comment> \<open>the events of the whole run\<close>
  note t1 = counted_trans [OF a0(3) p1(4)]
  note t2 = counted_trans [OF t1 a1(3)]
  note t3 = counted_trans [OF t2 r1(3)]
  note t4 = counted_trans [OF t3 a2(3)]
  note t5 = counted_trans [OF t4 p2(4)]
  note t6 = counted_trans [OF t5 a3(3)]
  note t7 = counted_trans [OF t6 r2(4)]
  note t8 = counted_trans [OF t7 a4(2)]
  from t8 have "counted s ?s5 0 1" by simp
  from counted_emitted [OF this] fin show ?thesis by (simp only: run) simp
qed

lemma twoClicks_changes:
  "changes cfgPostpone twoClicks sIdle = [(1025, LOW), (1125, HIGH), (1225, LOW), (1325, HIGH)]"
  by (simp add: twoClicks_def cfgPostpone_def sIdle_def check_defs flag_defs)

lemma twoClicks_events:
  "emitted sIdle (checkStates cfgPostpone twoClicks sIdle) =
     [(kEventPressed, LOW), (kEventReleased, HIGH), (kEventPressed, LOW),
      (kEventDoubleClicked, HIGH), (kEventReleased, HIGH)]"
  by (simp add: emitted_def twoClicks_def cfgPostpone_def sIdle_def check_defs flag_defs)

theorem double_click_supersedes_click_witness:
  "isFeature cfgPostpone kFeatureClick \<and> isFeature cfgPostpone kFeatureDoubleClick \<and>
   isFeature cfgPostpone kFeatureSuppressClickBeforeDoubleClick \<and>
   mLastButtonState sIdle = getDefaultReleasedState sIdle \<and> getDefaultReleasedState sIdle = HIGH \<and>
   \<not> isFlag sIdle kFlagClicked \<and> \<not> isFlag sIdle kFlagClickPostponed \<and>
   list_all (\<lambda>(t, b). 0 \<le> sint t) twoClicks \<and> sorted (map (sint \<circ> fst) twoClicks) \<and>
   changes cfgPostpone twoClicks sIdle = [(1025, LOW), (1125, HIGH), (1225, LOW), (1325, HIGH)] \<and>
   \<not> getClickDelay cfgPostpone \<le>s 1125 - 1025 \<and> \<not> getClickDelay cfgPostpone \<le>s 1325 - 1225 \<and>
   \<not> getDoubleClickDelay cfgPostpone \<le>s 1325 - 1125 \<and>
   count_list (map fst (emitted sIdle (checkStates cfgPostpone twoClicks sIdle))) kEventDoubleClicked = 1 \<and>
   count_list (map fst (emitted sIdle (checkStates cfgPostpone twoClicks sIdle))) kEventClicked = 0 \<and>
   \<not> isFlag (checkStates cfgPostpone twoClicks sIdle) kFlagClickPostponed \<and>
   emitted sIdle (checkStates cfgPostpone twoClicks sIdle) =
     [(kEventPressed, LOW), (kEventReleased, HIGH), (kEventPressed, LOW),
      (kEventDoubleClicked, HIGH), (kEventReleased, HIGH)]"
proof -
  have f: "isFeature cfgPostpone kFeatureClick" "isFeature cfgPostpone kFeatureDoubleClick"
    "isFeature cfgPostpone kFeatureSuppressClickBeforeDoubleClick"
    by (simp_all add: cfgPostpone_def isFeature_def)
  have r: "getDefaultReleasedState sIdle = HIGH"
    by (simp add: sIdle_def getDefaultReleasedState_def isFlag_def)
  have i: "mLastButtonState sIdle = getDefaultReleasedState sIdle"
    "\<not> isFlag sIdle kFlagClicked" "\<not> isFlag sIdle kFlagClickPostponed"
    by (simp_all add: r) (simp_all add: sIdle_def isFlag_def HIGH_def)
  have p: "LOW \<noteq> getDefaultReleasedState sIdle" "LOW \<noteq> kButtonStateUnknown"
    by (simp_all add: r) (simp_all add: LOW_def HIGH_def kButtonStateUnknown_def)
  have n: "\<forall>(t, b) \<in> set twoClicks. 0 \<le> sint t" by (simp add: twoClicks_def)
  have m: "sorted (map (sint \<circ> fst) twoClicks)" by (simp add: twoClicks_def)
  have c: "changes cfgPostpone twoClicks sIdle =
      [(1025, LOW), (1125, getDefaultReleasedState sIdle), (1225, LOW),
       (1325, getDefaultReleasedState sIdle)]"
    by (simp only: twoClicks_changes r)
  have q: "\<not> getClickDelay cfgPostpone \<le>s 1125 - 1025" "\<not> getClickDelay cfgPostpone \<le>s 1325 - 1225"
    "\<not> getDoubleClickDelay cfgPostpone \<le>s 1325 - 1125"
    by (simp_all add: cfgPostpone_def)
  note w = double_click_supersedes_click [OF f i p n m c q]
  have n': "list_all (\<lambda>(t, b). 0 \<le> sint t) twoClicks" by (simp add: twoClicks_def)
  show ?thesis using f r i n' m twoClicks_changes q w twoClicks_events by simp
qed

end
